theory Spec2Isabelle
  imports Main "HOL-Library.Sublist"
begin

section \<open>Stage prerequisites: placeholder substitution and eligibility\<close>

text \<open>
  The build parameter of the Go code (\<^verbatim>\<open>sdk.Parameter\<close>): only its \<^verbatim>\<open>Name\<close> and
  \<^verbatim>\<open>Value\<close> fields are read or written by the stage code.
\<close>

record sdk_Parameter =
  ParamName :: string
  ParamValue :: string

record sdk_Prerequisite =
  Parameter :: string
  ExpectedValue :: string

text \<open>
  \<^verbatim>\<open>sdk.PipelineBuild\<close>: the stage code only touches its \<^verbatim>\<open>Parameters\<close> slice.
\<close>

record sdk_PipelineBuild =
  Parameters :: "sdk_Parameter list"

text \<open>
  \<^verbatim>\<open>sdk.Stage\<close>. Its \<^verbatim>\<open>Actions\<close> list is only filled by \<^verbatim>\<open>loadPipelineStage\<close> and is
  left out: no function below reads or writes it.
\<close>

record sdk_Stage =
  ID :: int
  PipelineID :: int
  Name :: string
  BuildOrder :: int
  Enabled :: bool
  LastModified :: int
  Prerequisites :: "sdk_Prerequisite list"

text \<open>
  The errors the stage code returns: \<^verbatim>\<open>sql.ErrNoRows\<close>, the package's own
  \<^verbatim>\<open>ErrNoStage\<close>, any other error of the database connection, and the error wrapped
  around a regular expression that does not compile.
\<close>

datatype error = SqlErrNoRows | ErrNoStage | ErrStorage | ErrRegexp

text \<open>
  Go's \<^verbatim>\<open>strings.Replace(s, old, new, -1)\<close>: every non-overlapping occurrence of
  \<^verbatim>\<open>old\<close> in \<^verbatim>\<open>s\<close>, found left to right, is replaced by \<^verbatim>\<open>new\<close>. With an empty
  \<^verbatim>\<open>old\<close> Go inserts \<^verbatim>\<open>new\<close> in front of every character and at the end (the
  stage code never passes an empty \<^verbatim>\<open>old\<close>: it always starts with two braces).
\<close>

function Replace :: "string \<Rightarrow> string \<Rightarrow> string \<Rightarrow> string" where
  "Replace s old new =
     (if old = [] then new @ concat (map (\<lambda>c. c # new) s)
      else if s = [] then []
      else if prefix old s then new @ Replace (drop (length old) s) old new
      else hd s # Replace (tl s) old new)"
  by pat_completeness auto
termination
  by (relation "measure (\<lambda>(s, old, new). length s)") (auto simp: neq_Nil_conv)

declare Replace.simps [simp del]

text \<open>
  The innermost loop of \<^verbatim>\<open>CheckPrerequisites\<close>:
  \<^verbatim>\<open>for i := range pb.Parameters { pb.Parameters[i].Value = strings.Replace(...) }\<close>
  for one fixed copy \<^verbatim>\<open>pbp\<close> of a parameter. Every element is rewritten once.
\<close>

definition replacePlaceholder :: "sdk_Parameter \<Rightarrow> sdk_Parameter list \<Rightarrow> sdk_Parameter list" where
  "replacePlaceholder pbp ps =
     map (\<lambda>p. p\<lparr>ParamValue := Replace (ParamValue p) (''{{.'' @ ParamName pbp @ ''}}'') (ParamValue pbp)\<rparr>) ps"

text \<open>
  One iteration of the outer \<^verbatim>\<open>for { ... }\<close>: the loop
  \<^verbatim>\<open>for _, pbp := range pb.Parameters\<close> copies element \<open>j\<close> as it is when iteration
  \<open>j\<close> starts (earlier iterations have already rewritten it), and the flag
  \<^verbatim>\<open>replaced\<close> is raised as soon as one value differs from what it was.
\<close>

definition substitutionPass :: "sdk_Parameter list \<Rightarrow> bool \<times> sdk_Parameter list" where
  "substitutionPass ps =
     fold (\<lambda>j (replaced, qs).
             let qs' = replacePlaceholder (qs ! j) qs
             in (replaced \<or> qs' \<noteq> qs, qs'))
          [0..<length ps] (False, ps)"

text \<open>
  The outer loop has no iteration bound in the source, so it is a partial function:
  \<open>None\<close> is the loop that never exits.
\<close>

partial_function (option) resolvePlaceholders :: "sdk_Parameter list \<Rightarrow> sdk_Parameter list option" where
  "resolvePlaceholders ps =
     (case substitutionPass ps of
        (replaced, ps') \<Rightarrow> if \<not> replaced then Some ps' else resolvePlaceholders ps')"

text \<open>The anchoring of the expanded pattern with \<^verbatim>\<open>^\<close> and \<^verbatim>\<open>$\<close>.\<close>

definition anchor :: "string \<Rightarrow> string" where
  "anchor expectedValue =
     (let e1 = (if \<not> prefix ''^'' expectedValue then ''^'' @ expectedValue else expectedValue)
      in if \<not> suffix ''$'' e1 then e1 @ ''$'' else e1)"

text \<open>
  The second half of \<^verbatim>\<open>CheckPrerequisites\<close>. The trigger expansion
  (\<^verbatim>\<open>trigger.ProcessTriggerExpectedValue\<close>) and the regular-expression engine
  (\<^verbatim>\<open>regexp.Match\<close>, \<open>None\<close> for a pattern that does not compile) are external and are
  parameters of the model. The two nested loops return at the first error or mismatch.
\<close>

fun checkParameters ::
  "(string \<Rightarrow> sdk_PipelineBuild \<Rightarrow> string) \<Rightarrow> (string \<Rightarrow> string \<Rightarrow> bool option) \<Rightarrow>
   sdk_PipelineBuild \<Rightarrow> sdk_Prerequisite \<Rightarrow> sdk_Parameter list \<Rightarrow> (error + bool) option" where
  "checkParameters expand rmatch pb p [] = None"
| "checkParameters expand rmatch pb p (pbp # rest) =
     (if Parameter p = ParamName pbp then
        (case rmatch (anchor (expand (ExpectedValue p) pb)) (ParamValue pbp) of
           None \<Rightarrow> Some (Inl ErrRegexp)
         | Some ok \<Rightarrow> if \<not> ok then Some (Inr False) else checkParameters expand rmatch pb p rest)
      else checkParameters expand rmatch pb p rest)"

fun checkConditions ::
  "(string \<Rightarrow> sdk_PipelineBuild \<Rightarrow> string) \<Rightarrow> (string \<Rightarrow> string \<Rightarrow> bool option) \<Rightarrow>
   sdk_PipelineBuild \<Rightarrow> sdk_Prerequisite list \<Rightarrow> error + bool" where
  "checkConditions expand rmatch pb [] = Inr True"
| "checkConditions expand rmatch pb (p # rest) =
     (case checkParameters expand rmatch pb p (Parameters pb) of
        Some r \<Rightarrow> r
      | None \<Rightarrow> checkConditions expand rmatch pb rest)"

text \<open>
  \<^verbatim>\<open>CheckPrerequisites(s, pb)\<close>. The build is passed by value, but its \<^verbatim>\<open>Parameters\<close>
  field is a slice: the copy shares the caller's backing array, and the substitution loop
  assigns to \<^verbatim>\<open>pb.Parameters[i].Value\<close>. The model therefore returns, next to the
  \<^verbatim>\<open>(bool, error)\<close> result, the build as the caller sees it afterwards. \<open>None\<close>: the
  substitution loop does not exit.
\<close>

definition CheckPrerequisites ::
  "(string \<Rightarrow> sdk_PipelineBuild \<Rightarrow> string) \<Rightarrow> (string \<Rightarrow> string \<Rightarrow> bool option) \<Rightarrow>
   sdk_Stage \<Rightarrow> sdk_PipelineBuild \<Rightarrow> ((error + bool) \<times> sdk_PipelineBuild) option" where
  "CheckPrerequisites expand rmatch s pb =
     (case resolvePlaceholders (Parameters pb) of
        None \<Rightarrow> None
      | Some ps \<Rightarrow>
          (let pb' = pb\<lparr>Parameters := ps\<rparr>
           in Some (checkConditions expand rmatch pb' (Prerequisites s), pb')))"


section \<open>Action parameters of a stage-action placement\<close>

text \<open>
  Modelled from the spec: \<^verbatim>\<open>updateParamInList\<close> is called by \<^verbatim>\<open>loadPipelineStage\<close>
  but is not part of the source tree. The spec: "for every default parameter of the
  hydrated definition, if an override of the same name exists, the override value wins
  and is marked consumed". It reports whether the list holds a parameter of that name and
  hands the list back.
\<close>

definition updateParamInList :: "sdk_Parameter list \<Rightarrow> sdk_Parameter \<Rightarrow> bool \<times> sdk_Parameter list" where
  "updateParamInList params paramAction =
     (ParamName paramAction \<in> set (map ParamName params), params)"

text \<open>
  The parameter loop of \<^verbatim>\<open>loadPipelineStage\<close>: \<^verbatim>\<open>pipelineActionParameter\<close> starts as the
  decoded placement arguments; for each parameter of the loaded action \<^verbatim>\<open>a\<close> the list is
  passed through \<^verbatim>\<open>updateParamInList\<close> and, when that reports no update, the action's
  parameter is appended. The final list becomes \<^verbatim>\<open>a.Parameters\<close>.
\<close>

definition loadPipelineStage_parameters ::
  "sdk_Parameter list \<Rightarrow> sdk_Parameter list \<Rightarrow> sdk_Parameter list" where
  "loadPipelineStage_parameters pipelineActionParameter aParameters =
     fold (\<lambda>ap acc.
             case updateParamInList acc ap of
               (isUpdated, acc') \<Rightarrow> if \<not> isUpdated then acc' @ [ap] else acc')
          aParameters pipelineActionParameter"

text \<open>
  The merge as the specification words it, for comparison with the loop above:
  definition order for the defaults, an override of the same name replacing the default,
  then the overrides that match no default, in their own order.
\<close>

definition spec_parameter_merge ::
  "sdk_Parameter list \<Rightarrow> sdk_Parameter list \<Rightarrow> sdk_Parameter list" where
  "spec_parameter_merge overrides defaults =
     map (\<lambda>d. case find (\<lambda>ov. ParamName ov = ParamName d) overrides of
                 Some ov \<Rightarrow> ov | None \<Rightarrow> d) defaults
     @ filter (\<lambda>ov. ParamName ov \<notin> set (map ParamName defaults)) overrides"

section \<open>The stage store\<close>

subsection \<open>Tables and connections\<close>

text \<open>
  The tables the SQL statements of the stage code name, with the columns they use.
  Identifiers are Go \<^verbatim>\<open>int64\<close> and build orders Go \<^verbatim>\<open>int\<close>; the only arithmetic on them
  (\<^verbatim>\<open>build_order+1\<close>, \<^verbatim>\<open>build_order-1\<close>) is done by the database, which does not wrap.
\<close>

record pipeline_stage_row =
  stage_id :: int
  pipeline_id :: int
  stage_name :: string
  build_order :: int
  enabled :: bool

record pipeline_stage_prerequisite_row =
  pipeline_stage_id :: int
  parameter :: string
  expected_value :: string

record pipeline_row =
  pipeline_key :: int
  last_modified :: int

record pipeline_action_row =
  pipeline_action_key :: int
  action_pipeline_stage_id :: int

record database =
  pipeline_stage :: "pipeline_stage_row list"
  pipeline_stage_prerequisite :: "pipeline_stage_prerequisite_row list"
  pipeline :: "pipeline_row list"
  pipeline_action :: "pipeline_action_row list"

text \<open>
  A connection (\<^verbatim>\<open>*sql.DB\<close> or \<^verbatim>\<open>*sql.Tx\<close>): the tables it sees, the outcomes the
  transport will give to the coming statements (\<open>Some err\<close>: that statement fails with
  \<open>err\<close>; an exhausted script: every further statement succeeds), and the database clock.
\<close>

record conn =
  tables :: database
  faults :: "error option list"
  clock :: int

definition nextFault :: "conn \<Rightarrow> error option \<times> conn" where
  "nextFault c = (case faults c of [] \<Rightarrow> (None, c) | f # fs \<Rightarrow> (f, c\<lparr>faults := fs\<rparr>))"

text \<open>\<^verbatim>\<open>db.Exec\<close>: a statement that changes tables and returns only an error.\<close>

definition Exec :: "(database \<Rightarrow> database) \<Rightarrow> conn \<Rightarrow> error option \<times> conn" where
  "Exec stmt c =
     (case nextFault c of
        (Some err, c') \<Rightarrow> (Some err, c')
      | (None, c') \<Rightarrow> (None, c'\<lparr>tables := stmt (tables c')\<rparr>))"

text \<open>\<^verbatim>\<open>db.Query\<close> and \<^verbatim>\<open>db.QueryRow(...).Scan\<close> of a \<^verbatim>\<open>SELECT\<close>.\<close>

definition Query :: "(database \<Rightarrow> 'a) \<Rightarrow> conn \<Rightarrow> (error + 'a) \<times> conn" where
  "Query sel c =
     (case nextFault c of
        (Some err, c') \<Rightarrow> (Inl err, c')
      | (None, c') \<Rightarrow> (Inr (sel (tables c')), c'))"

text \<open>\<^verbatim>\<open>db.QueryRow(...).Scan\<close> of an \<^verbatim>\<open>INSERT ... RETURNING\<close>.\<close>

definition QueryRowReturning :: "(database \<Rightarrow> 'a \<times> database) \<Rightarrow> conn \<Rightarrow> (error + 'a) \<times> conn" where
  "QueryRowReturning stmt c =
     (case nextFault c of
        (Some err, c') \<Rightarrow> (Inl err, c')
      | (None, c') \<Rightarrow> (case stmt (tables c') of (v, d) \<Rightarrow> (Inr v, c'\<lparr>tables := d\<rparr>)))"

text \<open>
  \<^verbatim>\<open>db.Begin\<close>, \<^verbatim>\<open>tx.Commit\<close> and \<^verbatim>\<open>tx.Rollback\<close>. A transaction works on its own view
  of the tables; rolling back leaves the tables as they were when it began.
\<close>

definition Begin :: "conn \<Rightarrow> error option \<times> conn" where
  "Begin db = nextFault db"

definition Commit :: "conn \<Rightarrow> error option \<times> conn" where
  "Commit tx = nextFault tx"

definition Rollback :: "conn \<Rightarrow> conn \<Rightarrow> conn" where
  "Rollback db tx = tx\<lparr>tables := tables db\<rparr>"

subsection \<open>The SQL statements\<close>

text \<open>
  The identity column of \<^verbatim>\<open>pipeline_stage\<close> is filled by the database
  (\<^verbatim>\<open>RETURNING id\<close>); its generator is not in the source tree and is modelled as a key
  larger than every key of the table.
\<close>

definition next_stage_id :: "database \<Rightarrow> int" where
  "next_stage_id d = fold max (map stage_id (pipeline_stage d)) 0 + 1"

definition sql_insert_stage :: "int \<Rightarrow> string \<Rightarrow> int \<Rightarrow> bool \<Rightarrow> database \<Rightarrow> int \<times> database" where
  "sql_insert_stage pid nm bo en d =
     (next_stage_id d,
      d\<lparr>pipeline_stage := pipeline_stage d @
          [\<lparr>stage_id = next_stage_id d, pipeline_id = pid, stage_name = nm,
            build_order = bo, enabled = en\<rparr>]\<rparr>)"

definition sql_insert_prerequisites :: "int \<Rightarrow> sdk_Prerequisite list \<Rightarrow> database \<Rightarrow> database" where
  "sql_insert_prerequisites sid ps d =
     d\<lparr>pipeline_stage_prerequisite := pipeline_stage_prerequisite d @
         map (\<lambda>p. \<lparr>pipeline_stage_id = sid, parameter = Parameter p,
                    expected_value = ExpectedValue p\<rparr>) ps\<rparr>"

definition sql_update_stage :: "string \<Rightarrow> int \<Rightarrow> bool \<Rightarrow> int \<Rightarrow> database \<Rightarrow> database" where
  "sql_update_stage nm bo en sid d =
     d\<lparr>pipeline_stage :=
         map (\<lambda>r. if stage_id r = sid
                   then r\<lparr>stage_name := nm, build_order := bo, enabled := en\<rparr> else r)
             (pipeline_stage d)\<rparr>"

definition sql_delete_prerequisites :: "int \<Rightarrow> database \<Rightarrow> database" where
  "sql_delete_prerequisites sid d =
     d\<lparr>pipeline_stage_prerequisite :=
         filter (\<lambda>q. pipeline_stage_id q \<noteq> sid) (pipeline_stage_prerequisite d)\<rparr>"

definition sql_delete_stage :: "int \<Rightarrow> database \<Rightarrow> database" where
  "sql_delete_stage sid d =
     d\<lparr>pipeline_stage := filter (\<lambda>r. stage_id r \<noteq> sid) (pipeline_stage d)\<rparr>"

definition sql_count_stages :: "int \<Rightarrow> database \<Rightarrow> int" where
  "sql_count_stages pid d = int (length (filter (\<lambda>r. pipeline_id r = pid) (pipeline_stage d)))"

text \<open>
  \<^verbatim>\<open>UPDATE pipeline_stage SET build_order=build_order+1 WHERE build_order < $1
  AND build_order >= $2 AND pipeline_id = $3\<close>
\<close>

definition sql_move_up :: "int \<Rightarrow> int \<Rightarrow> int \<Rightarrow> database \<Rightarrow> database" where
  "sql_move_up a1 a2 a3 d =
     d\<lparr>pipeline_stage :=
         map (\<lambda>r. if build_order r < a1 \<and> build_order r \<ge> a2 \<and> pipeline_id r = a3
                   then r\<lparr>build_order := build_order r + 1\<rparr> else r)
             (pipeline_stage d)\<rparr>"

text \<open>
  \<^verbatim>\<open>UPDATE pipeline_stage SET build_order=build_order-1 WHERE build_order <= $1
  AND build_order > $2 AND pipeline_id = $3\<close>
\<close>

definition sql_move_down :: "int \<Rightarrow> int \<Rightarrow> int \<Rightarrow> database \<Rightarrow> database" where
  "sql_move_down a1 a2 a3 d =
     d\<lparr>pipeline_stage :=
         map (\<lambda>r. if build_order r \<le> a1 \<and> build_order r > a2 \<and> pipeline_id r = a3
                   then r\<lparr>build_order := build_order r - 1\<rparr> else r)
             (pipeline_stage d)\<rparr>"

text \<open>
  The rows of \<^verbatim>\<open>pipeline_stage LEFT OUTER JOIN pipeline_stage_prerequisite\<close> for the given
  stage rows: one row per prerequisite of a stage, and one row with \<^verbatim>\<open>NULL\<close> prerequisite
  columns for a stage that has none.
\<close>

definition left_outer_join ::
  "database \<Rightarrow> pipeline_stage_row list \<Rightarrow> (pipeline_stage_row \<times> string option \<times> string option) list" where
  "left_outer_join d rows =
     concat (map (\<lambda>r.
        case filter (\<lambda>q. pipeline_stage_id q = stage_id r) (pipeline_stage_prerequisite d) of
          [] \<Rightarrow> [(r, None, None)]
        | qs \<Rightarrow> map (\<lambda>q. (r, Some (parameter q), Some (expected_value q))) qs) rows)"

subsection \<open>Collaborators outside the source tree\<close>

text \<open>
  Modelled from the spec: \<^verbatim>\<open>UpdatePipelineLastModified\<close> is called by
  \<^verbatim>\<open>InsertStagePrequisites\<close> but is not part of the source tree. The spec: it must
  "update the owning pipeline's lastModified stamp". One statement that sets the stamp of
  the pipeline row to the database clock.
\<close>

definition sql_touch_pipeline :: "int \<Rightarrow> int \<Rightarrow> database \<Rightarrow> database" where
  "sql_touch_pipeline pid now d =
     d\<lparr>pipeline :=
         map (\<lambda>p. if pipeline_key p = pid then p\<lparr>last_modified := now\<rparr> else p) (pipeline d)\<rparr>"

definition UpdatePipelineLastModified :: "conn \<Rightarrow> int \<Rightarrow> error option \<times> conn" where
  "UpdatePipelineLastModified db pipelineID = Exec (sql_touch_pipeline pipelineID (clock db)) db"

text \<open>
  Modelled from the spec: \<^verbatim>\<open>DeletePipelineActionByStage\<close> is called by
  \<^verbatim>\<open>DeleteStageByID\<close> but is not part of the source tree. The spec: "delete this stage's
  action placements (delegated to an action-placement collaborator keyed by stage id and
  actor id for audit)".
\<close>

definition sql_delete_pipeline_actions :: "int \<Rightarrow> database \<Rightarrow> database" where
  "sql_delete_pipeline_actions sid d =
     d\<lparr>pipeline_action :=
         filter (\<lambda>a. action_pipeline_stage_id a \<noteq> sid) (pipeline_action d)\<rparr>"

definition DeletePipelineActionByStage :: "conn \<Rightarrow> int \<Rightarrow> int \<Rightarrow> error option \<times> conn" where
  "DeletePipelineActionByStage db stageID userID = Exec (sql_delete_pipeline_actions stageID) db"

subsection \<open>Loading stages\<close>

text \<open>The zero value of \<^verbatim>\<open>sdk.Stage\<close> with an empty, non-nil prerequisite slice.\<close>

definition empty_stage :: sdk_Stage where
  "empty_stage = \<lparr>ID = 0, PipelineID = 0, Name = [], BuildOrder = 0, Enabled = False,
                   LastModified = 0, Prerequisites = []\<rparr>"

text \<open>
  \<^verbatim>\<open>LoadStage\<close>: the loop body scans every row into the same \<^verbatim>\<open>stage\<close> variable and
  appends the prerequisite when both of its columns are not \<^verbatim>\<open>NULL\<close>.
\<close>

definition LoadStage_scan ::
  "pipeline_stage_row \<times> string option \<times> string option \<Rightarrow> sdk_Stage \<Rightarrow> sdk_Stage" where
  "LoadStage_scan row stage =
     (case row of (r, parameterCol, expectedValueCol) \<Rightarrow>
        (let stage1 = stage\<lparr>ID := stage_id r, PipelineID := pipeline_id r, Name := stage_name r,
                             BuildOrder := build_order r, Enabled := enabled r\<rparr>
         in case (parameterCol, expectedValueCol) of
              (Some pa, Some ev) \<Rightarrow>
                stage1\<lparr>Prerequisites := Prerequisites stage1 @
                          [\<lparr>Parameter = pa, ExpectedValue = ev\<rparr>]\<rparr>
            | _ \<Rightarrow> stage1))"

definition LoadStage :: "conn \<Rightarrow> int \<Rightarrow> int \<Rightarrow> (error + sdk_Stage) \<times> conn" where
  "LoadStage db pipelineID stageID =
     (case Query (\<lambda>d. left_outer_join d
                    (filter (\<lambda>r. pipeline_id r = pipelineID \<and> stage_id r = stageID)
                            (pipeline_stage d))) db of
        (Inl err, db1) \<Rightarrow>
          if err = SqlErrNoRows then (Inl ErrNoStage, db1) else (Inl err, db1)
      | (Inr rows, db1) \<Rightarrow> (Inr (fold LoadStage_scan rows empty_stage), db1))"

text \<open>
  \<^verbatim>\<open>LoadStages\<close>: \<^verbatim>\<open>mapStages\<close> maps a stage id to the one \<^verbatim>\<open>*sdk.Stage\<close> allocated for
  it, so a pointer is identified by that id; \<^verbatim>\<open>stagesPtr\<close> is the list of pointers, and
  the final loop copies what each pointer refers to at the end. The query selects the id,
  the name and the enabled flag of a stage, ordered by build order (a stable sort here).
\<close>

definition LoadStages_scan ::
  "pipeline_stage_row \<times> string option \<times> string option \<Rightarrow>
   (int \<rightharpoonup> sdk_Stage) \<times> int list \<Rightarrow> (int \<rightharpoonup> sdk_Stage) \<times> int list" where
  "LoadStages_scan row st =
     (case (row, st) of ((r, parameterCol, expectedValueCol), (mapStages, stagesPtr)) \<Rightarrow>
        (let stageData =
               (case mapStages (stage_id r) of
                  None \<Rightarrow> empty_stage\<lparr>ID := stage_id r, Name := stage_name r,
                                        Enabled := enabled r\<rparr>
                | Some sd \<Rightarrow> sd);
             stageData' =
               (case (parameterCol, expectedValueCol) of
                  (Some pa, Some ev) \<Rightarrow>
                    stageData\<lparr>Prerequisites := Prerequisites stageData @
                                 [\<lparr>Parameter = pa, ExpectedValue = ev\<rparr>]\<rparr>
                | _ \<Rightarrow> stageData)
         in (mapStages(stage_id r \<mapsto> stageData'), stagesPtr @ [stage_id r])))"

definition LoadStages :: "conn \<Rightarrow> int \<Rightarrow> (error + sdk_Stage list) \<times> conn" where
  "LoadStages db pipelineID =
     (case Query (\<lambda>d. sort_key (\<lambda>row. build_order (fst row))
                    (left_outer_join d
                       (filter (\<lambda>r. pipeline_id r = pipelineID) (pipeline_stage d)))) db of
        (Inl err, db1) \<Rightarrow> (Inl err, db1)
      | (Inr rows, db1) \<Rightarrow>
          (case fold LoadStages_scan rows (Map.empty, []) of
             (mapStages, stagesPtr) \<Rightarrow>
               (Inr (concat (map (\<lambda>ptr. case mapStages ptr of None \<Rightarrow> [] | Some sd \<Rightarrow> [sd])
                                 stagesPtr)), db1)))"

subsection \<open>Writing stages\<close>

definition InsertStagePrequisites :: "conn \<Rightarrow> sdk_Stage \<Rightarrow> error option \<times> conn" where
  "InsertStagePrequisites db s =
     (case (if length (Prerequisites s) > 0
            then Exec (sql_insert_prerequisites (ID s) (Prerequisites s)) db
            else (None, db)) of
        (Some err, db1) \<Rightarrow> (Some err, db1)
      | (None, db1) \<Rightarrow> UpdatePipelineLastModified db1 (PipelineID s))"

text \<open>
  \<^verbatim>\<open>InsertStage\<close> writes through its pointer argument (\<^verbatim>\<open>s.Enabled\<close>, \<^verbatim>\<open>s.ID\<close>): the
  stage as the caller sees it afterwards is part of the result.
\<close>

definition InsertStage :: "conn \<Rightarrow> sdk_Stage \<Rightarrow> error option \<times> sdk_Stage \<times> conn" where
  "InsertStage db s0 =
     (let s = s0\<lparr>Enabled := True\<rparr>
      in case QueryRowReturning
                (sql_insert_stage (PipelineID s) (Name s) (BuildOrder s) True) db of
           (Inl err, db1) \<Rightarrow> (Some err, s, db1)
         | (Inr newID, db1) \<Rightarrow>
             (let s' = s\<lparr>ID := newID\<rparr>
              in case InsertStagePrequisites db1 s' of (err, db2) \<Rightarrow> (err, s', db2)))"

definition deleteStagePrerequisites :: "conn \<Rightarrow> int \<Rightarrow> error option \<times> conn" where
  "deleteStagePrerequisites db stageID = Exec (sql_delete_prerequisites stageID) db"

definition UpdateStage :: "conn \<Rightarrow> sdk_Stage \<Rightarrow> error option \<times> conn" where
  "UpdateStage db s =
     (case Exec (sql_update_stage (Name s) (BuildOrder s) (Enabled s) (ID s)) db of
        (Some err, db1) \<Rightarrow> (Some err, db1)
      | (None, db1) \<Rightarrow>
          (case deleteStagePrerequisites db1 (ID s) of
             (Some err, db2) \<Rightarrow> (Some err, db2)
           | (None, db2) \<Rightarrow>
               (case InsertStagePrequisites db2 s of
                  (Some err, db3) \<Rightarrow> (Some err, db3)
                | (None, db3) \<Rightarrow> (None, db3))))"

definition CountStageByPipelineID :: "conn \<Rightarrow> int \<Rightarrow> (error + int) \<times> conn" where
  "CountStageByPipelineID db pipelineID = Query (sql_count_stages pipelineID) db"

definition deleteStageByID :: "conn \<Rightarrow> sdk_Stage \<Rightarrow> error option \<times> conn" where
  "deleteStageByID tx s =
     (case deleteStagePrerequisites tx (ID s) of
        (Some err, tx1) \<Rightarrow> (Some err, tx1)
      | (None, tx1) \<Rightarrow>
          (case Exec (sql_delete_stage (ID s)) tx1 of
             (Some err, tx2) \<Rightarrow> (Some err, tx2)
           | (None, tx2) \<Rightarrow> (None, tx2)))"

definition moveUpStages :: "conn \<Rightarrow> int \<Rightarrow> int \<Rightarrow> int \<Rightarrow> error option \<times> conn" where
  "moveUpStages db pipelineID oldPosition newPosition =
     Exec (sql_move_up oldPosition newPosition pipelineID) db"

definition moveDownStages :: "conn \<Rightarrow> int \<Rightarrow> int \<Rightarrow> int \<Rightarrow> error option \<times> conn" where
  "moveDownStages db pipelineID oldPosition newPosition =
     Exec (sql_move_down newPosition oldPosition pipelineID) db"

definition DeleteStageByID :: "conn \<Rightarrow> sdk_Stage \<Rightarrow> int \<Rightarrow> error option \<times> conn" where
  "DeleteStageByID tx s userID =
     (case CountStageByPipelineID tx (PipelineID s) of
        (Inl err, tx1) \<Rightarrow> (Some err, tx1)
      | (Inr nbOfStages, tx1) \<Rightarrow>
          (case DeletePipelineActionByStage tx1 (ID s) userID of
             (Some err, tx2) \<Rightarrow> (Some err, tx2)
           | (None, tx2) \<Rightarrow>
               (case deleteStageByID tx2 s of
                  (Some err, tx3) \<Rightarrow> (Some err, tx3)
                | (None, tx3) \<Rightarrow>
                    moveDownStages tx3 (PipelineID s) (BuildOrder s) nbOfStages)))"

text \<open>
  \<^verbatim>\<open>MoveStage\<close> opens its own transaction and defers \<^verbatim>\<open>tx.Rollback()\<close>, which undoes
  everything unless the commit went through. It assigns \<^verbatim>\<open>stageToMove.BuildOrder\<close>
  through the pointer before \<^verbatim>\<open>UpdateStage\<close> runs.
\<close>

definition MoveStage :: "conn \<Rightarrow> sdk_Stage \<Rightarrow> int \<Rightarrow> error option \<times> sdk_Stage \<times> conn" where
  "MoveStage db stageToMove newBuildOrder =
     (case Begin db of
        (Some err, db1) \<Rightarrow> (Some err, stageToMove, db1)
      | (None, tx) \<Rightarrow>
          (case (if BuildOrder stageToMove > newBuildOrder
                 then moveUpStages tx (PipelineID stageToMove) (BuildOrder stageToMove) newBuildOrder
                 else if BuildOrder stageToMove < newBuildOrder
                 then moveDownStages tx (PipelineID stageToMove) (BuildOrder stageToMove) newBuildOrder
                 else (None, tx)) of
             (Some err, tx1) \<Rightarrow> (Some err, stageToMove, Rollback db tx1)
           | (None, tx1) \<Rightarrow>
               (let moved = stageToMove\<lparr>BuildOrder := newBuildOrder\<rparr>
                in case UpdateStage tx1 moved of
                     (Some err, tx2) \<Rightarrow> (Some err, moved, Rollback db tx2)
                   | (None, tx2) \<Rightarrow>
                       (case Commit tx2 of
                          (Some err, tx3) \<Rightarrow> (Some err, moved, Rollback db tx3)
                        | (None, db') \<Rightarrow> (None, moved, db')))))"

text \<open>
  Modelled from the spec: the caller that owns the transaction \<^verbatim>\<open>DeleteStageByID\<close> runs
  in is not part of the source tree. The spec: \<^verbatim>\<open>deleteStage(stage, actorId)\<close> works
  "within one transaction"; "if any step fails the whole transaction rolls back".
\<close>

definition deleteStage :: "conn \<Rightarrow> sdk_Stage \<Rightarrow> int \<Rightarrow> error option \<times> conn" where
  "deleteStage db s actorId =
     (case Begin db of
        (Some err, db1) \<Rightarrow> (Some err, db1)
      | (None, tx) \<Rightarrow>
          (case DeleteStageByID tx s actorId of
             (Some err, tx1) \<Rightarrow> (Some err, Rollback db tx1)
           | (None, tx1) \<Rightarrow>
               (case Commit tx1 of
                  (Some err, tx2) \<Rightarrow> (Some err, Rollback db tx2)
                | (None, db') \<Rightarrow> (None, db'))))"

subsection \<open>The build-order invariant\<close>

definition buildOrders :: "database \<Rightarrow> int \<Rightarrow> int list" where
  "buildOrders d pid = map build_order (filter (\<lambda>r. pipeline_id r = pid) (pipeline_stage d))"

text \<open>No gaps, no duplicates: the values are exactly \<open>1..N\<close> for \<open>N\<close> values.\<close>

definition dense :: "int list \<Rightarrow> bool" where
  "dense bs \<longleftrightarrow> distinct bs \<and> set bs = {1..int (length bs)}"

text \<open>The in-memory stage names a row of the table: its key, its pipeline, its build order.\<close>

definition stored :: "database \<Rightarrow> sdk_Stage \<Rightarrow> bool" where
  "stored d s \<longleftrightarrow>
     (ID s, PipelineID s, BuildOrder s) \<in>
       set (map (\<lambda>r. (stage_id r, pipeline_id r, build_order r)) (pipeline_stage d))"

text \<open>
  Sequences of store operations: \<^verbatim>\<open>InsertStage\<close>, \<^verbatim>\<open>MoveStage\<close>, and \<^verbatim>\<open>DeleteStageByID\<close>
  inside the transaction of its caller (\<open>deleteStage\<close>). A call is \<open>applicable\<close> when it
  respects what the callers of the store are required to provide: a stage is appended at
  \<open>count + 1\<close>, a deleted or moved stage is one of the table, and a move stays within
  \<open>1..count\<close>.
\<close>

datatype operation = OpInsert sdk_Stage | OpDelete sdk_Stage int | OpMove sdk_Stage int

fun applicable :: "database \<Rightarrow> operation \<Rightarrow> bool" where
  "applicable d (OpInsert s) = (BuildOrder s = sql_count_stages (PipelineID s) d + 1)"
| "applicable d (OpDelete s userID) = stored d s"
| "applicable d (OpMove s newBuildOrder) =
     (stored d s \<and> 1 \<le> newBuildOrder \<and> newBuildOrder \<le> sql_count_stages (PipelineID s) d)"

fun perform :: "conn \<Rightarrow> operation \<Rightarrow> error option \<times> conn" where
  "perform c (OpInsert s) = (case InsertStage c s of (err, s', c') \<Rightarrow> (err, c'))"
| "perform c (OpDelete s userID) = deleteStage c s userID"
| "perform c (OpMove s newBuildOrder) =
     (case MoveStage c s newBuildOrder of (err, s', c') \<Rightarrow> (err, c'))"

text \<open>
  The connection after the whole sequence, whether the single calls returned an error or
  not; \<open>None\<close> when some call was not applicable to the tables it found.
\<close>

fun run :: "conn \<Rightarrow> operation list \<Rightarrow> conn option" where
  "run c [] = Some c"
| "run c (op # ops) =
     (if applicable (tables c) op then run (snd (perform c op)) ops else None)"

subsection \<open>The move as the specification words it\<close>

text \<open>
  What the specification says a move of stage \<open>s\<close> (at build order \<open>BuildOrder s\<close>) to
  position \<open>n\<close> does to a row: the moved stage is written with the new order; a stage of
  the pipeline in \<open>[n, old)\<close> goes up by one, a stage in \<open>(old, n]\<close> goes down by one;
  any other row is left alone. For comparison with what \<^verbatim>\<open>MoveStage\<close> leaves in the table.
\<close>

definition spec_move_row :: "sdk_Stage \<Rightarrow> int \<Rightarrow> pipeline_stage_row \<Rightarrow> pipeline_stage_row" where
  "spec_move_row s n r =
     (if stage_id r = ID s
      then r\<lparr>stage_name := Name s, build_order := n, enabled := Enabled s\<rparr>
      else if pipeline_id r = PipelineID s \<and> n \<le> build_order r \<and> build_order r < BuildOrder s
      then r\<lparr>build_order := build_order r + 1\<rparr>
      else if pipeline_id r = PipelineID s \<and> BuildOrder s < build_order r \<and> build_order r \<le> n
      then r\<lparr>build_order := build_order r - 1\<rparr>
      else r)"

subsection \<open>A small database for concrete runs\<close>

definition example_tables :: database where
  "example_tables =
     \<lparr>pipeline_stage =
        [\<lparr>stage_id = 1, pipeline_id = 7, stage_name = ''build'', build_order = 1, enabled = True\<rparr>,
         \<lparr>stage_id = 2, pipeline_id = 7, stage_name = ''test'', build_order = 2, enabled = True\<rparr>,
         \<lparr>stage_id = 3, pipeline_id = 7, stage_name = ''deploy'', build_order = 3, enabled = True\<rparr>],
      pipeline_stage_prerequisite =
        [\<lparr>pipeline_stage_id = 2, parameter = ''branch'', expected_value = ''master''\<rparr>,
         \<lparr>pipeline_stage_id = 2, parameter = ''env'', expected_value = ''prod''\<rparr>],
      pipeline = [\<lparr>pipeline_key = 7, last_modified = 100\<rparr>],
      pipeline_action = [\<lparr>pipeline_action_key = 1, action_pipeline_stage_id = 2\<rparr>]\<rparr>"

definition example_db :: conn where
  "example_db = \<lparr>tables = example_tables, faults = [], clock = 200\<rparr>"

text \<open>The stages of the example as \<^verbatim>\<open>LoadStage\<close> returns them.\<close>

definition example_stage :: "int \<Rightarrow> string \<Rightarrow> int \<Rightarrow> sdk_Prerequisite list \<Rightarrow> sdk_Stage" where
  "example_stage i nm bo ps =
     \<lparr>ID = i, PipelineID = 7, Name = nm, BuildOrder = bo, Enabled = True,
      LastModified = 0, Prerequisites = ps\<rparr>"

definition example_test_stage :: sdk_Stage where
  "example_test_stage =
     example_stage 2 ''test'' 2
       [\<lparr>Parameter = ''branch'', ExpectedValue = ''master''\<rparr>,
        \<lparr>Parameter = ''env'', ExpectedValue = ''prod''\<rparr>]"

text \<open>
  A sequence of valid calls on the example, on a connection whose sixth statement fails:
  the delete fails at its shift and is rolled back, the move and the insert go through.
\<close>

definition example_faulty_db :: conn where
  "example_faulty_db = example_db\<lparr>faults := [None, None, None, None, None, Some ErrStorage]\<rparr>"

definition example_operations :: "operation list" where
  "example_operations =
     [OpDelete example_test_stage 42,
      OpMove (example_stage 3 ''deploy'' 3 []) 1,
      OpInsert (example_stage 0 ''publish'' 4 [])]"

text \<open>The example with two stages at the same build order.\<close>

definition example_duplicate_db :: conn where
  "example_duplicate_db =
     example_db\<lparr>tables := example_tables\<lparr>pipeline_stage :=
        [\<lparr>stage_id = 1, pipeline_id = 7, stage_name = ''build'', build_order = 1, enabled = True\<rparr>,
         \<lparr>stage_id = 2, pipeline_id = 7, stage_name = ''test'', build_order = 2, enabled = True\<rparr>,
         \<lparr>stage_id = 3, pipeline_id = 7, stage_name = ''deploy'', build_order = 2, enabled = True\<rparr>]\<rparr>\<rparr>"

section \<open>Properties of the prerequisite evaluator\<close>

lemma replacePlaceholder_names:
  "map ParamName (replacePlaceholder pbp ps) = map ParamName ps"
  by (simp add: replacePlaceholder_def)

lemma pass_fold_flag:
  "fold (\<lambda>j (replaced, qs).
             let qs' = replacePlaceholder (qs ! j) qs
             in (replaced \<or> qs' \<noteq> qs, qs')) js (r, qs) = (False, qs')
   \<Longrightarrow> \<not> r \<and> qs' = qs"
proof (induction js arbitrary: r qs)
  case Nil
  then show ?case by simp
next
  case (Cons j js)
  from Cons.prems have
    "fold (\<lambda>j (replaced, qs).
             let qs' = replacePlaceholder (qs ! j) qs
             in (replaced \<or> qs' \<noteq> qs, qs')) js
       (r \<or> replacePlaceholder (qs ! j) qs \<noteq> qs, replacePlaceholder (qs ! j) qs) = (False, qs')"
    by (simp add: Let_def)
  from Cons.IH [OF this] show ?case by auto
qed

lemma pass_fold_names:
  "fold (\<lambda>j (replaced, qs).
             let qs' = replacePlaceholder (qs ! j) qs
             in (replaced \<or> qs' \<noteq> qs, qs')) js (r, qs) = (r', qs')
   \<Longrightarrow> map ParamName qs' = map ParamName qs"
proof (induction js arbitrary: r qs)
  case Nil
  then show ?case by simp
next
  case (Cons j js)
  from Cons.prems have
    "fold (\<lambda>j (replaced, qs).
             let qs' = replacePlaceholder (qs ! j) qs
             in (replaced \<or> qs' \<noteq> qs, qs')) js
       (r \<or> replacePlaceholder (qs ! j) qs \<noteq> qs, replacePlaceholder (qs ! j) qs) = (r', qs')"
    by (simp add: Let_def)
  from Cons.IH [OF this] show ?case by (simp add: replacePlaceholder_names)
qed

lemma substitutionPass_quiet:
  "substitutionPass ps = (False, ps') \<Longrightarrow> ps' = ps"
  unfolding substitutionPass_def by (drule pass_fold_flag) simp

lemma substitutionPass_names:
  "substitutionPass ps = (r, ps') \<Longrightarrow> map ParamName ps' = map ParamName ps"
  unfolding substitutionPass_def by (rule pass_fold_names)

lemma resolvePlaceholders_fixed:
  assumes "resolvePlaceholders ps = Some ps'"
  shows "substitutionPass ps' = (False, ps')"
proof (rule resolvePlaceholders.raw_induct
    [where P = "\<lambda>qs qs'. substitutionPass qs' = (False, qs')", OF _ assms])
  fix rec :: "sdk_Parameter list \<Rightarrow> sdk_Parameter list option" and qs qs'
  assume IH: "\<And>x y. rec x = Some y \<Longrightarrow> substitutionPass y = (False, y)"
    and step: "(case substitutionPass qs of
                  (replaced, ps') \<Rightarrow> if \<not> replaced then Some ps' else rec ps') = Some qs'"
  obtain r ms where pass: "substitutionPass qs = (r, ms)" by (cases "substitutionPass qs")
  show "substitutionPass qs' = (False, qs')"
  proof (cases r)
    case True
    with step pass have "rec ms = Some qs'" by simp
    then show ?thesis by (rule IH)
  next
    case False
    with step pass have p: "substitutionPass qs = (False, qs')" by simp
    from substitutionPass_quiet [OF p] p show ?thesis by simp
  qed
qed

lemma resolvePlaceholders_names:
  assumes "resolvePlaceholders ps = Some ps'"
  shows "map ParamName ps' = map ParamName ps"
proof (rule resolvePlaceholders.raw_induct
    [where P = "\<lambda>qs qs'. map ParamName qs' = map ParamName qs", OF _ assms])
  fix rec :: "sdk_Parameter list \<Rightarrow> sdk_Parameter list option" and qs qs'
  assume IH: "\<And>x y. rec x = Some y \<Longrightarrow> map ParamName y = map ParamName x"
    and step: "(case substitutionPass qs of
                  (replaced, ps') \<Rightarrow> if \<not> replaced then Some ps' else rec ps') = Some qs'"
  obtain r ms where pass: "substitutionPass qs = (r, ms)" by (cases "substitutionPass qs")
  show "map ParamName qs' = map ParamName qs"
  proof (cases r)
    case True
    with step pass have "rec ms = Some qs'" by simp
    then have "map ParamName qs' = map ParamName ms" by (rule IH)
    with substitutionPass_names [OF pass] show ?thesis by simp
  next
    case False
    with step pass have "ms = qs'" by simp
    with substitutionPass_names [OF pass] show ?thesis by simp
  qed
qed

lemma resolvePlaceholders_stable:
  "resolvePlaceholders ps = Some ps' \<Longrightarrow> resolvePlaceholders ps' = Some ps'"
  by (subst resolvePlaceholders.simps) (simp add: resolvePlaceholders_fixed)

text \<open>
  Claim C7, as the code has it. \<^verbatim>\<open>CheckPrerequisites\<close> is a function of the stage and
  the build, but the build is not read-only: whenever it returns, the caller's parameter
  array holds the placeholder-resolved values. The names (and so the number) of the
  parameters are unchanged, the values are the result of the substitution loop, and a
  second evaluation on the build as the first one left it returns the same result and
  changes nothing more.
\<close>

theorem CheckPrerequisites_rewrites_build:
  assumes "CheckPrerequisites expand rmatch s pb = Some (r, pb')"
  shows "map ParamName (Parameters pb') = map ParamName (Parameters pb)
       \<and> pb' = pb\<lparr>Parameters := Parameters pb'\<rparr>
       \<and> resolvePlaceholders (Parameters pb) = Some (Parameters pb')
       \<and> CheckPrerequisites expand rmatch s pb' = Some (r, pb')"
proof -
  from assms obtain ps where res: "resolvePlaceholders (Parameters pb) = Some ps"
    and pb': "pb' = pb\<lparr>Parameters := ps\<rparr>"
    and r: "r = checkConditions expand rmatch pb' (Prerequisites s)"
    by (auto simp: CheckPrerequisites_def Let_def split: option.splits)
  have "resolvePlaceholders (Parameters pb') = Some ps"
    using resolvePlaceholders_stable [OF res] pb' by simp
  then have "CheckPrerequisites expand rmatch s pb' = Some (r, pb')"
    using pb' r by (simp add: CheckPrerequisites_def Let_def)
  with res pb' resolvePlaceholders_names [OF res] show ?thesis by simp
qed


lemma resolve_ab:
  "resolvePlaceholders [\<lparr>ParamName = ''a'', ParamValue = ''{{.b}}''\<rparr>, \<lparr>ParamName = ''b'', ParamValue = ''x''\<rparr>]
     = Some [\<lparr>ParamName = ''a'', ParamValue = ''x''\<rparr>, \<lparr>ParamName = ''b'', ParamValue = ''x''\<rparr>]"
  apply (subst resolvePlaceholders.simps)
  apply (simp add: substitutionPass_def replacePlaceholder_def Replace.simps upt_rec)
  apply (subst resolvePlaceholders.simps)
  apply (simp add: substitutionPass_def replacePlaceholder_def Replace.simps upt_rec)
  done


text \<open>
  Claim C7 as stated fails: with build parameters \<open>a = {{.b}}\<close>, \<open>b = x\<close> and a stage
  without prerequisites, the evaluation answers "eligible" and leaves \<open>a = x\<close> in the
  caller's build.
\<close>

theorem CheckPrerequisites_not_read_only:
  "CheckPrerequisites (\<lambda>e pb. e) (\<lambda>pat v. None) empty_stage
     \<lparr>Parameters = [\<lparr>ParamName = ''a'', ParamValue = ''{{.b}}''\<rparr>,
                     \<lparr>ParamName = ''b'', ParamValue = ''x''\<rparr>]\<rparr>
   = Some (Inr True,
       \<lparr>Parameters = [\<lparr>ParamName = ''a'', ParamValue = ''x''\<rparr>,
                       \<lparr>ParamName = ''b'', ParamValue = ''x''\<rparr>]\<rparr>)
   \<and> \<lparr>Parameters = [\<lparr>ParamName = ''a'', ParamValue = ''x''\<rparr>,
                       \<lparr>ParamName = ''b'', ParamValue = ''x''\<rparr>]\<rparr>
     \<noteq> \<lparr>Parameters = [\<lparr>ParamName = ''a'', ParamValue = ''{{.b}}''\<rparr>,
                     \<lparr>ParamName = ''b'', ParamValue = ''x''\<rparr>]\<rparr>"
  by (simp add: CheckPrerequisites_def resolve_ab empty_stage_def Let_def)

text \<open>
  Claim C7, the amended statement at a concrete stage and build.
\<close>

theorem CheckPrerequisites_rewrites_build_witness:
  "CheckPrerequisites (\<lambda>e pb. e) (\<lambda>pat v. Some (pat = ''^'' @ v @ ''$''))
      (empty_stage\<lparr>Prerequisites := [\<lparr>Parameter = ''a'', ExpectedValue = ''x''\<rparr>]\<rparr>)
      \<lparr>Parameters = [\<lparr>ParamName = ''a'', ParamValue = ''{{.b}}''\<rparr>,
                      \<lparr>ParamName = ''b'', ParamValue = ''x''\<rparr>]\<rparr>
     = Some (Inr True, \<lparr>Parameters = [\<lparr>ParamName = ''a'', ParamValue = ''x''\<rparr>,
                                       \<lparr>ParamName = ''b'', ParamValue = ''x''\<rparr>]\<rparr>)
   \<and> CheckPrerequisites (\<lambda>e pb. e) (\<lambda>pat v. Some (pat = ''^'' @ v @ ''$''))
      (empty_stage\<lparr>Prerequisites := [\<lparr>Parameter = ''a'', ExpectedValue = ''x''\<rparr>]\<rparr>)
      \<lparr>Parameters = [\<lparr>ParamName = ''a'', ParamValue = ''x''\<rparr>,
                      \<lparr>ParamName = ''b'', ParamValue = ''x''\<rparr>]\<rparr>
     = Some (Inr True, \<lparr>Parameters = [\<lparr>ParamName = ''a'', ParamValue = ''x''\<rparr>,
                                       \<lparr>ParamName = ''b'', ParamValue = ''x''\<rparr>]\<rparr>)"
proof -
  have run: "CheckPrerequisites (\<lambda>e pb. e) (\<lambda>pat v. Some (pat = ''^'' @ v @ ''$''))
      (empty_stage\<lparr>Prerequisites := [\<lparr>Parameter = ''a'', ExpectedValue = ''x''\<rparr>]\<rparr>)
      \<lparr>Parameters = [\<lparr>ParamName = ''a'', ParamValue = ''{{.b}}''\<rparr>,
                      \<lparr>ParamName = ''b'', ParamValue = ''x''\<rparr>]\<rparr>
     = Some (Inr True, \<lparr>Parameters = [\<lparr>ParamName = ''a'', ParamValue = ''x''\<rparr>,
                                       \<lparr>ParamName = ''b'', ParamValue = ''x''\<rparr>]\<rparr>)"
    by (simp add: CheckPrerequisites_def resolve_ab empty_stage_def anchor_def Let_def suffix_to_prefix)
  from CheckPrerequisites_rewrites_build [OF run] run show ?thesis by simp
qed




















lemma parameters_fold:
  "distinct (map ParamName ds) \<Longrightarrow>
   fold (\<lambda>ap acc.
             case updateParamInList acc ap of
               (isUpdated, acc') \<Rightarrow> if \<not> isUpdated then acc' @ [ap] else acc') ds acc
   = acc @ filter (\<lambda>d. ParamName d \<notin> set (map ParamName acc)) ds"
proof (induction ds arbitrary: acc)
  case Nil
  then show ?case by simp
next
  case (Cons d ds)
  from Cons.prems have dist: "distinct (map ParamName ds)"
    and fresh: "ParamName d \<notin> set (map ParamName ds)" by simp_all
  show ?case
  proof (cases "ParamName d \<in> set (map ParamName acc)")
    case True
    then show ?thesis using Cons.IH [OF dist, of acc]
      by (simp add: updateParamInList_def)
  next
    case False
    have "filter (\<lambda>x. ParamName x \<notin> set (map ParamName (acc @ [d]))) ds
        = filter (\<lambda>x. ParamName x \<notin> set (map ParamName acc)) ds"
    proof (rule filter_cong [OF refl])
      fix x assume "x \<in> set ds"
      then have "ParamName x \<in> set (map ParamName ds)" by simp
      with fresh have "ParamName x \<noteq> ParamName d" by metis
      then show "(ParamName x \<notin> set (map ParamName (acc @ [d])))
               = (ParamName x \<notin> set (map ParamName acc))" by simp
    qed
    with False show ?thesis using Cons.IH [OF dist, of "acc @ [d]"]
      by (simp add: updateParamInList_def)
  qed
qed

lemma parameters_fold_general:
  "fold (\<lambda>ap acc.
             case updateParamInList acc ap of
               (isUpdated, acc') \<Rightarrow> if \<not> isUpdated then acc' @ [ap] else acc') ds ov
     = ov @ map ((!) ds)
              (filter (\<lambda>i. ParamName (ds ! i)
                          \<notin> set (map ParamName ov) \<union> set (map ParamName (take i ds)))
                      [0..<length ds])
   \<and> set (map ParamName (fold (\<lambda>ap acc.
             case updateParamInList acc ap of
               (isUpdated, acc') \<Rightarrow> if \<not> isUpdated then acc' @ [ap] else acc') ds ov))
     = set (map ParamName ov) \<union> set (map ParamName ds)"
proof (induction ds rule: rev_induct)
  case Nil
  show ?case by simp
next
  case (snoc d ds)
  let ?step = "\<lambda>ap acc.
             case updateParamInList acc ap of
               (isUpdated, acc') \<Rightarrow> if \<not> isUpdated then acc' @ [ap] else acc'"
  let ?keep = "\<lambda>xs i. ParamName (xs ! i)
                          \<notin> set (map ParamName ov) \<union> set (map ParamName (take i xs))"
  have eq: "fold ?step ds ov = ov @ map ((!) ds) (filter (?keep ds) [0..<length ds])"
    by (rule snoc.IH [THEN conjunct1])
  have names: "set (map ParamName (fold ?step ds ov))
                  = set (map ParamName ov) \<union> set (map ParamName ds)"
    by (rule snoc.IH [THEN conjunct2])
  have old: "map ((!) (ds @ [d])) (filter (?keep (ds @ [d])) [0..<length ds])
           = map ((!) ds) (filter (?keep ds) [0..<length ds])"
  proof -
    have "filter (?keep (ds @ [d])) [0..<length ds] = filter (?keep ds) [0..<length ds]"
      by (rule filter_cong [OF refl]) (simp add: nth_append)
    moreover have "map ((!) (ds @ [d])) (filter (?keep ds) [0..<length ds])
                 = map ((!) ds) (filter (?keep ds) [0..<length ds])"
      by (rule map_cong [OF refl]) (simp add: nth_append)
    ultimately show ?thesis by simp
  qed
  have last: "?keep (ds @ [d]) (length ds)
            = (ParamName d \<notin> set (map ParamName ov) \<union> set (map ParamName ds))" by simp
  have K: "map ((!) (ds @ [d])) (filter (?keep (ds @ [d])) [0..<length (ds @ [d])])
         = map ((!) ds) (filter (?keep ds) [0..<length ds])
           @ (if ParamName d \<notin> set (map ParamName ov) \<union> set (map ParamName ds) then [d] else [])"
    using old last by simp
  have st: "fold ?step (ds @ [d]) ov
          = (if ParamName d \<in> set (map ParamName ov) \<union> set (map ParamName ds)
             then fold ?step ds ov else fold ?step ds ov @ [d])"
    using names by (simp add: updateParamInList_def)
  show ?case
  proof (cases "ParamName d \<in> set (map ParamName ov) \<union> set (map ParamName ds)")
    case True
    with st have f: "fold ?step (ds @ [d]) ov = fold ?step ds ov" by simp
    from True K have k: "map ((!) (ds @ [d])) (filter (?keep (ds @ [d])) [0..<length (ds @ [d])])
         = map ((!) ds) (filter (?keep ds) [0..<length ds])" by simp
    have "fold ?step (ds @ [d]) ov
        = ov @ map ((!) (ds @ [d])) (filter (?keep (ds @ [d])) [0..<length (ds @ [d])])"
      unfolding f k by (rule eq)
    moreover have "set (map ParamName (fold ?step (ds @ [d]) ov))
        = set (map ParamName ov) \<union> set (map ParamName (ds @ [d]))"
      unfolding f names using True by auto
    ultimately show ?thesis ..
  next
    case False
    with st have f: "fold ?step (ds @ [d]) ov = fold ?step ds ov @ [d]" by simp
    from False K have k: "map ((!) (ds @ [d])) (filter (?keep (ds @ [d])) [0..<length (ds @ [d])])
         = map ((!) ds) (filter (?keep ds) [0..<length ds]) @ [d]" by simp
    have "fold ?step (ds @ [d]) ov
        = ov @ map ((!) (ds @ [d])) (filter (?keep (ds @ [d])) [0..<length (ds @ [d])])"
      unfolding f k eq by simp
    moreover have "set (map ParamName (fold ?step (ds @ [d]) ov))
        = set (map ParamName ov) \<union> set (map ParamName (ds @ [d]))"
      unfolding f using names by auto
    ultimately show ?thesis ..
  qed
qed

text \<open>
  Claim C9, as the code has it. The final list is the override list of the placement, in
  its own order, followed by the parameters of the action definition whose name is
  carried neither by an override nor by an earlier parameter of the definition, in
  definition order. For a definition whose parameter names are distinct these are exactly
  the parameters that no override names.
\<close>

theorem loadPipelineStage_parameters_order:
  "loadPipelineStage_parameters overrides aParameters
     = overrides @ map ((!) aParameters)
         (filter (\<lambda>i. ParamName (aParameters ! i)
                     \<notin> set (map ParamName overrides) \<union> set (map ParamName (take i aParameters)))
                 [0..<length aParameters])
   \<and> (distinct (map ParamName aParameters) \<longrightarrow>
        loadPipelineStage_parameters overrides aParameters
          = overrides @ filter (\<lambda>d. ParamName d \<notin> set (map ParamName overrides)) aParameters)"
proof
  show "loadPipelineStage_parameters overrides aParameters
     = overrides @ map ((!) aParameters)
         (filter (\<lambda>i. ParamName (aParameters ! i)
                     \<notin> set (map ParamName overrides) \<union> set (map ParamName (take i aParameters)))
                 [0..<length aParameters])"
    unfolding loadPipelineStage_parameters_def by (rule parameters_fold_general [THEN conjunct1])
  show "distinct (map ParamName aParameters) \<longrightarrow>
        loadPipelineStage_parameters overrides aParameters
          = overrides @ filter (\<lambda>d. ParamName d \<notin> set (map ParamName overrides)) aParameters"
    unfolding loadPipelineStage_parameters_def by (rule impI) (rule parameters_fold)
qed

text \<open>
  Claim C9, the amended statement at the example of the specification (defaults
  \<open>timeout = 30\<close>, \<open>retries = 1\<close>, override \<open>timeout = 60\<close>) and at a definition that
  repeats a name (\<open>timeout = 30\<close>, \<open>timeout = 31\<close>, \<open>retries = 1\<close> with the override
  \<open>retries = 5\<close>).
\<close>

theorem loadPipelineStage_parameters_order_witness:
  "distinct (map ParamName [\<lparr>ParamName = ''timeout'', ParamValue = ''30''\<rparr>,
                            \<lparr>ParamName = ''retries'', ParamValue = ''1''\<rparr>])
   \<and> loadPipelineStage_parameters [\<lparr>ParamName = ''timeout'', ParamValue = ''60''\<rparr>]
        [\<lparr>ParamName = ''timeout'', ParamValue = ''30''\<rparr>,
         \<lparr>ParamName = ''retries'', ParamValue = ''1''\<rparr>]
     = [\<lparr>ParamName = ''timeout'', ParamValue = ''60''\<rparr>,
        \<lparr>ParamName = ''retries'', ParamValue = ''1''\<rparr>]
   \<and> loadPipelineStage_parameters [\<lparr>ParamName = ''retries'', ParamValue = ''5''\<rparr>]
        [\<lparr>ParamName = ''timeout'', ParamValue = ''30''\<rparr>,
         \<lparr>ParamName = ''timeout'', ParamValue = ''31''\<rparr>,
         \<lparr>ParamName = ''retries'', ParamValue = ''1''\<rparr>]
     = [\<lparr>ParamName = ''retries'', ParamValue = ''5''\<rparr>,
        \<lparr>ParamName = ''timeout'', ParamValue = ''30''\<rparr>]"
proof -
  have d: "distinct (map ParamName [\<lparr>ParamName = ''timeout'', ParamValue = ''30''\<rparr>,
                            \<lparr>ParamName = ''retries'', ParamValue = ''1''\<rparr>])" by simp
  note a = loadPipelineStage_parameters_order
    [where overrides = "[\<lparr>ParamName = ''timeout'', ParamValue = ''60''\<rparr>]"
       and aParameters = "[\<lparr>ParamName = ''timeout'', ParamValue = ''30''\<rparr>,
                           \<lparr>ParamName = ''retries'', ParamValue = ''1''\<rparr>]",
     THEN conjunct2, THEN mp, OF d]
  note b = loadPipelineStage_parameters_order
    [where overrides = "[\<lparr>ParamName = ''retries'', ParamValue = ''5''\<rparr>]"
       and aParameters = "[\<lparr>ParamName = ''timeout'', ParamValue = ''30''\<rparr>,
                           \<lparr>ParamName = ''timeout'', ParamValue = ''31''\<rparr>,
                           \<lparr>ParamName = ''retries'', ParamValue = ''1''\<rparr>]",
     THEN conjunct1]
  from a b d show ?thesis by (simp add: upt_rec)
qed

text \<open>
  Claim C9 as stated fails: with defaults \<open>timeout = 30\<close>, \<open>retries = 1\<close> and the override
  \<open>retries = 5\<close> the code puts the override first, where definition order would put
  \<open>timeout\<close> first.
\<close>

theorem parameter_merge_order_counterexample:
  "loadPipelineStage_parameters [\<lparr>ParamName = ''retries'', ParamValue = ''5''\<rparr>]
        [\<lparr>ParamName = ''timeout'', ParamValue = ''30''\<rparr>,
         \<lparr>ParamName = ''retries'', ParamValue = ''1''\<rparr>]
     = [\<lparr>ParamName = ''retries'', ParamValue = ''5''\<rparr>,
        \<lparr>ParamName = ''timeout'', ParamValue = ''30''\<rparr>]
   \<and> spec_parameter_merge [\<lparr>ParamName = ''retries'', ParamValue = ''5''\<rparr>]
        [\<lparr>ParamName = ''timeout'', ParamValue = ''30''\<rparr>,
         \<lparr>ParamName = ''retries'', ParamValue = ''1''\<rparr>]
     = [\<lparr>ParamName = ''timeout'', ParamValue = ''30''\<rparr>,
        \<lparr>ParamName = ''retries'', ParamValue = ''5''\<rparr>]"
  by (simp add: loadPipelineStage_parameters_def updateParamInList_def spec_parameter_merge_def)

section \<open>Properties of the stage store\<close>

lemma nextFault_frame: "nextFault c = (r, c') \<Longrightarrow> tables c' = tables c \<and> clock c' = clock c"
  by (auto simp: nextFault_def split: list.splits)

lemma Exec_ok: "Exec f c = (None, c') \<Longrightarrow> tables c' = f (tables c) \<and> clock c' = clock c"
  by (auto simp: Exec_def split: prod.splits option.splits dest: nextFault_frame)

lemma Exec_err: "Exec f c = (Some e, c') \<Longrightarrow> tables c' = tables c \<and> clock c' = clock c"
  by (auto simp: Exec_def split: prod.splits option.splits dest: nextFault_frame)

lemma Query_ok: "Query sel c = (Inr v, c') \<Longrightarrow> v = sel (tables c) \<and> tables c' = tables c \<and> clock c' = clock c"
  by (auto simp: Query_def split: prod.splits option.splits dest: nextFault_frame)

lemma QueryRowReturning_ok:
  "QueryRowReturning stmt c = (Inr v, c') \<Longrightarrow>
     v = fst (stmt (tables c)) \<and> tables c' = snd (stmt (tables c)) \<and> clock c' = clock c"
  by (auto simp: QueryRowReturning_def split: prod.splits option.splits dest: nextFault_frame)

lemma sql_insert_prerequisites_Nil [simp]: "sql_insert_prerequisites sid [] d = d"
  by (simp add: sql_insert_prerequisites_def)

lemma UpdatePipelineLastModified_ok:
  "UpdatePipelineLastModified c pid = (None, c') \<Longrightarrow>
     tables c' = sql_touch_pipeline pid (clock c) (tables c) \<and> clock c' = clock c"
  unfolding UpdatePipelineLastModified_def by (rule Exec_ok)

lemma InsertStagePrequisites_ok:
  assumes "InsertStagePrequisites c s = (None, c')"
  shows "tables c' = sql_touch_pipeline (PipelineID s) (clock c)
                       (sql_insert_prerequisites (ID s) (Prerequisites s) (tables c))
         \<and> clock c' = clock c"
proof (cases "Prerequisites s = []")
  case True
  with assms have "UpdatePipelineLastModified c (PipelineID s) = (None, c')"
    by (simp add: InsertStagePrequisites_def)
  from UpdatePipelineLastModified_ok [OF this] True show ?thesis by simp
next
  case False
  with assms obtain c1 where
    e: "Exec (sql_insert_prerequisites (ID s) (Prerequisites s)) c = (None, c1)"
    and u: "UpdatePipelineLastModified c1 (PipelineID s) = (None, c')"
    by (auto simp: InsertStagePrequisites_def split: prod.splits option.splits)
  from Exec_ok [OF e] UpdatePipelineLastModified_ok [OF u] show ?thesis by simp
qed

lemma UpdateStage_ok:
  assumes "UpdateStage c s = (None, c')"
  shows "tables c' = sql_touch_pipeline (PipelineID s) (clock c)
       (sql_insert_prerequisites (ID s) (Prerequisites s)
         (sql_delete_prerequisites (ID s)
           (sql_update_stage (Name s) (BuildOrder s) (Enabled s) (ID s) (tables c))))
     \<and> clock c' = clock c"
proof -
  from assms obtain c1 c2 where
    e1: "Exec (sql_update_stage (Name s) (BuildOrder s) (Enabled s) (ID s)) c = (None, c1)"
    and e2: "Exec (sql_delete_prerequisites (ID s)) c1 = (None, c2)"
    and e3: "InsertStagePrequisites c2 s = (None, c')"
    by (auto simp: UpdateStage_def deleteStagePrerequisites_def split: prod.splits option.splits)
  from Exec_ok [OF e1] Exec_ok [OF e2] InsertStagePrequisites_ok [OF e3]
  show ?thesis by simp
qed

lemma MoveStage_ok:
  assumes "MoveStage c s n = (None, s', c')"
  shows "s' = s\<lparr>BuildOrder := n\<rparr>
     \<and> clock c' = clock c
     \<and> tables c' = sql_touch_pipeline (PipelineID s) (clock c)
       (sql_insert_prerequisites (ID s) (Prerequisites s)
         (sql_delete_prerequisites (ID s)
           (sql_update_stage (Name s) n (Enabled s) (ID s)
              (if BuildOrder s > n then sql_move_up (BuildOrder s) n (PipelineID s) (tables c)
               else if BuildOrder s < n then sql_move_down n (BuildOrder s) (PipelineID s) (tables c)
               else tables c))))"
proof -
  from assms obtain tx tx1 tx2 where
    b: "Begin c = (None, tx)"
    and m: "(if BuildOrder s > n then moveUpStages tx (PipelineID s) (BuildOrder s) n
             else if BuildOrder s < n then moveDownStages tx (PipelineID s) (BuildOrder s) n
             else (None, tx)) = (None, tx1)"
    and u: "UpdateStage tx1 (s\<lparr>BuildOrder := n\<rparr>) = (None, tx2)"
    and k: "Commit tx2 = (None, c')"
    and s': "s' = s\<lparr>BuildOrder := n\<rparr>"
    by (auto simp: MoveStage_def Let_def split: prod.splits option.splits)
  from b have tx: "tables tx = tables c" "clock tx = clock c"
    by (auto simp: Begin_def dest: nextFault_frame)
  from k have c': "tables c' = tables tx2" "clock c' = clock tx2"
    by (auto simp: Commit_def dest: nextFault_frame)
  have tx1: "clock tx1 = clock c \<and> tables tx1 =
      (if BuildOrder s > n then sql_move_up (BuildOrder s) n (PipelineID s) (tables c)
       else if BuildOrder s < n then sql_move_down n (BuildOrder s) (PipelineID s) (tables c)
       else tables c)"
    using m tx by (auto simp: moveUpStages_def moveDownStages_def split: if_splits dest: Exec_ok)
  from UpdateStage_ok [OF u] tx1 c' s' show ?thesis by simp
qed

lemmas store_defs =
  nextFault_def Exec_def Query_def QueryRowReturning_def Begin_def Commit_def Rollback_def
  sql_insert_stage_def next_stage_id_def sql_insert_prerequisites_def sql_update_stage_def
  sql_delete_prerequisites_def sql_delete_stage_def sql_count_stages_def sql_move_up_def
  sql_move_down_def left_outer_join_def sql_touch_pipeline_def sql_delete_pipeline_actions_def
  UpdatePipelineLastModified_def DeletePipelineActionByStage_def
  InsertStagePrequisites_def InsertStage_def deleteStagePrerequisites_def UpdateStage_def
  CountStageByPipelineID_def deleteStageByID_def moveUpStages_def moveDownStages_def
  DeleteStageByID_def MoveStage_def deleteStage_def
  LoadStage_def LoadStage_scan_def LoadStages_def LoadStages_scan_def empty_stage_def

lemmas example_defs =
  example_tables_def example_db_def example_stage_def example_test_stage_def

text \<open>
  Claim C5 at a concrete database. No row of the example has pipeline 7 and stage 9, yet
  \<^verbatim>\<open>LoadStage\<close> returns no error: it returns the zero-valued stage. (The branch that
  maps \<^verbatim>\<open>sql.ErrNoRows\<close> to \<^verbatim>\<open>ErrNoStage\<close> is only reached when the query itself
  returns that error; a query without matching rows returns an empty row set.) When a row
  matches, here stage 2, the stage comes back with its prerequisites.
\<close>

theorem LoadStage_missing_row:
  "LoadStage example_db 7 9 = (Inr empty_stage, example_db)
   \<and> LoadStage example_db 7 2 = (Inr example_test_stage, example_db)"
  by (simp add: store_defs example_defs)

text \<open>
  Claim C6 at a concrete database. Stage 2 of the example has two prerequisite rows, so the
  join has two rows for it, and \<^verbatim>\<open>LoadStages\<close> appends its pointer to \<^verbatim>\<open>stagesPtr\<close>
  for each of them: the stage is returned twice, each copy with both prerequisites.
\<close>

theorem LoadStages_repeats_stage:
  "fst (LoadStages example_db 7) =
     Inr [\<lparr>ID = 1, PipelineID = 0, Name = ''build'', BuildOrder = 0, Enabled = True,
           LastModified = 0, Prerequisites = []\<rparr>,
          \<lparr>ID = 2, PipelineID = 0, Name = ''test'', BuildOrder = 0, Enabled = True,
           LastModified = 0,
           Prerequisites = [\<lparr>Parameter = ''branch'', ExpectedValue = ''master''\<rparr>,
                            \<lparr>Parameter = ''env'', ExpectedValue = ''prod''\<rparr>]\<rparr>,
          \<lparr>ID = 2, PipelineID = 0, Name = ''test'', BuildOrder = 0, Enabled = True,
           LastModified = 0,
           Prerequisites = [\<lparr>Parameter = ''branch'', ExpectedValue = ''master''\<rparr>,
                            \<lparr>Parameter = ''env'', ExpectedValue = ''prod''\<rparr>]\<rparr>,
          \<lparr>ID = 3, PipelineID = 0, Name = ''deploy'', BuildOrder = 0, Enabled = True,
           LastModified = 0, Prerequisites = []\<rparr>]"
  by (simp add: store_defs example_defs)



lemma MoveStage_rows:
  assumes "MoveStage c s n = (None, s', c')"
  shows "pipeline_stage (tables c') = map (spec_move_row s n) (pipeline_stage (tables c))"
proof -
  have "sql_update_stage (Name s) n (Enabled s) (ID s) d = 
        d\<lparr>pipeline_stage := map (\<lambda>r. if stage_id r = ID s
                   then r\<lparr>stage_name := Name s, build_order := n, enabled := Enabled s\<rparr> else r)
             (pipeline_stage d)\<rparr>" for d
    by (simp add: sql_update_stage_def)
  from MoveStage_ok [OF assms] show ?thesis
    by (auto simp: sql_touch_pipeline_def sql_insert_prerequisites_def
        sql_delete_prerequisites_def sql_update_stage_def sql_move_up_def sql_move_down_def
        spec_move_row_def)
qed

lemma stored_row:
  "stored d s \<Longrightarrow> \<exists>r0 \<in> set (pipeline_stage d).
      stage_id r0 = ID s \<and> pipeline_id r0 = PipelineID s \<and> build_order r0 = BuildOrder s"
  by (auto simp: stored_def)

lemma stored_by_id:
  assumes "distinct (map stage_id (pipeline_stage d))" "stored d s"
    "r \<in> set (pipeline_stage d)" "stage_id r = ID s"
  shows "pipeline_id r = PipelineID s \<and> build_order r = BuildOrder s"
proof -
  from stored_row [OF assms(2)] obtain r0 where r0: "r0 \<in> set (pipeline_stage d)"
    "stage_id r0 = ID s" "pipeline_id r0 = PipelineID s" "build_order r0 = BuildOrder s" by blast
  from assms(1) have inj: "inj_on stage_id (set (pipeline_stage d))" by (simp add: distinct_map)
  have "r = r0" using inj_onD [OF inj, of r r0] r0 assms(3,4) by simp
  with r0 show ?thesis by simp
qed

lemma stored_by_order:
  assumes "distinct (buildOrders d (PipelineID s))" "stored d s"
    "r \<in> set (pipeline_stage d)" "pipeline_id r = PipelineID s" "build_order r = BuildOrder s"
  shows "stage_id r = ID s"
proof -
  from stored_row [OF assms(2)] obtain r0 where r0: "r0 \<in> set (pipeline_stage d)"
    "stage_id r0 = ID s" "pipeline_id r0 = PipelineID s" "build_order r0 = BuildOrder s" by blast
  from assms(1) have inj:
    "inj_on build_order (set (filter (\<lambda>r. pipeline_id r = PipelineID s) (pipeline_stage d)))"
    by (simp add: buildOrders_def distinct_map)
  have "r = r0" using inj_onD [OF inj, of r r0] r0 assms(3,4,5) by simp
  with r0 show ?thesis by simp
qed

lemma nextFault_clean: "faults c = [] \<Longrightarrow> nextFault c = (None, c)"
  by (simp add: nextFault_def)

lemma Exec_clean:
  "faults c = [] \<Longrightarrow> Exec f c = (None, c\<lparr>tables := f (tables c)\<rparr>)"
  by (simp add: Exec_def nextFault_clean)

lemma InsertStagePrequisites_clean:
  "faults c = [] \<Longrightarrow> \<exists>c'. InsertStagePrequisites c s = (None, c') \<and> faults c' = []"
  by (simp add: InsertStagePrequisites_def UpdatePipelineLastModified_def Exec_clean)

lemma UpdateStage_clean:
  assumes "faults c = []"
  shows "\<exists>c'. UpdateStage c s = (None, c') \<and> faults c' = []"
proof -
  let ?c1 = "c\<lparr>tables := sql_update_stage (Name s) (BuildOrder s) (Enabled s) (ID s) (tables c)\<rparr>"
  let ?c2 = "?c1\<lparr>tables := sql_delete_prerequisites (ID s) (tables ?c1)\<rparr>"
  from assms have f2: "faults ?c2 = []" by simp
  from InsertStagePrequisites_clean [OF f2, of s] obtain c' where
    i: "InsertStagePrequisites ?c2 s = (None, c')" and f: "faults c' = []" by blast
  have "UpdateStage c s = (None, c')"
    using assms i by (simp add: UpdateStage_def deleteStagePrerequisites_def Exec_clean)
  with f show ?thesis by blast
qed

lemma MoveStage_clean:
  assumes "faults db = []"
  shows "fst (MoveStage db s n) = None"
proof -
  let ?tx1 = "if BuildOrder s > n
              then db\<lparr>tables := sql_move_up (BuildOrder s) n (PipelineID s) (tables db)\<rparr>
              else if BuildOrder s < n
              then db\<lparr>tables := sql_move_down n (BuildOrder s) (PipelineID s) (tables db)\<rparr>
              else db"
  have sh: "(if BuildOrder s > n
                 then moveUpStages db (PipelineID s) (BuildOrder s) n
                 else if BuildOrder s < n
                 then moveDownStages db (PipelineID s) (BuildOrder s) n
                 else (None, db)) = (None, ?tx1)"
    using assms by (simp add: moveUpStages_def moveDownStages_def Exec_clean)
  from assms have f1: "faults ?tx1 = []" by simp
  from UpdateStage_clean [OF f1, of "s\<lparr>BuildOrder := n\<rparr>"] obtain tx2 where
    u: "UpdateStage ?tx1 (s\<lparr>BuildOrder := n\<rparr>) = (None, tx2)" and f2: "faults tx2 = []" by blast
  show ?thesis
    unfolding MoveStage_def Begin_def nextFault_clean [OF assms]
    by (simp only: prod.case option.case sh Let_def u Commit_def nextFault_clean [OF f2] fst_conv)
qed

text \<open>
  Claim C2, as the code has it. \<^verbatim>\<open>MoveStage\<close> returns without error whenever no
  statement fails. After a successful move of \<open>s\<close> to position \<open>n\<close> the stage table is
  the old one with every row changed as the specification says, for the build order the
  in-memory stage carries: the stages of the pipeline with build order in \<open>[n, old)\<close> are
  incremented, those in \<open>(old, n]\<close> are decremented, the row of the moved stage holds \<open>n\<close>,
  and no other row changes. When \<open>s\<close> is the stage stored at that build order and the
  build orders of its pipeline are distinct, any two other stages of the pipeline compare
  after the move as they did before.
\<close>

theorem MoveStage_shifts_range:
  "(faults db = [] \<longrightarrow> fst (MoveStage db s n) = None)
   \<and> (MoveStage db s n = (None, s', db') \<longrightarrow>
        BuildOrder s' = n
      \<and> pipeline_stage (tables db') = map (spec_move_row s n) (pipeline_stage (tables db))
      \<and> (stored (tables db) s \<and> distinct (buildOrders (tables db) (PipelineID s)) \<longrightarrow>
          (\<forall>r1 \<in> set (pipeline_stage (tables db)). \<forall>r2 \<in> set (pipeline_stage (tables db)).
             pipeline_id r1 = PipelineID s \<and> pipeline_id r2 = PipelineID s
             \<and> stage_id r1 \<noteq> ID s \<and> stage_id r2 \<noteq> ID s \<longrightarrow>
             (build_order (spec_move_row s n r1) < build_order (spec_move_row s n r2))
               = (build_order r1 < build_order r2))))"
proof (intro conjI impI ballI)
  assume "faults db = []"
  then show "fst (MoveStage db s n) = None" by (rule MoveStage_clean)
next
  assume ok: "MoveStage db s n = (None, s', db')"
  from MoveStage_ok [OF ok] show "BuildOrder s' = n" by simp
  from MoveStage_rows [OF ok]
  show "pipeline_stage (tables db') = map (spec_move_row s n) (pipeline_stage (tables db))" .
next
  fix r1 r2
  assume st: "stored (tables db) s \<and> distinct (buildOrders (tables db) (PipelineID s))"
    and r1: "r1 \<in> set (pipeline_stage (tables db))"
    and r2: "r2 \<in> set (pipeline_stage (tables db))"
    and h: "pipeline_id r1 = PipelineID s \<and> pipeline_id r2 = PipelineID s
             \<and> stage_id r1 \<noteq> ID s \<and> stage_id r2 \<noteq> ID s"
  from st r1 h have o1: "build_order r1 \<noteq> BuildOrder s"
    using stored_by_order [of "tables db" s r1] by blast
  from st r2 h have o2: "build_order r2 \<noteq> BuildOrder s"
    using stored_by_order [of "tables db" s r2] by blast
  from o1 o2 h
  show "(build_order (spec_move_row s n r1) < build_order (spec_move_row s n r2))
               = (build_order r1 < build_order r2)"
    by (simp add: spec_move_row_def) linarith
qed

text \<open>
  Claim C2, the amended statement at the example, in both directions: the stage at
  position 3 moved to position 1 turns the build orders 1, 2, 3 into 2, 3, 1, the stage
  at position 1 moved to position 3 turns them into 3, 1, 2, and the two other stages
  keep their relative order each time.
\<close>

theorem MoveStage_shifts_range_witness:
  "faults example_db = []
   \<and> stored (tables example_db) (example_stage 3 ''deploy'' 3 [])
   \<and> stored (tables example_db) (example_stage 1 ''build'' 1 [])
   \<and> distinct (buildOrders (tables example_db) 7)
   \<and> map build_order (pipeline_stage (tables example_db)) = [1, 2, 3]
   \<and> fst (MoveStage example_db (example_stage 3 ''deploy'' 3 []) 1) = None
   \<and> BuildOrder (fst (snd (MoveStage example_db (example_stage 3 ''deploy'' 3 []) 1))) = 1
   \<and> map build_order (pipeline_stage (tables (snd (snd
        (MoveStage example_db (example_stage 3 ''deploy'' 3 []) 1))))) = [2, 3, 1]
   \<and> (build_order (spec_move_row (example_stage 3 ''deploy'' 3 []) 1
          \<lparr>stage_id = 1, pipeline_id = 7, stage_name = ''build'', build_order = 1, enabled = True\<rparr>)
        < build_order (spec_move_row (example_stage 3 ''deploy'' 3 []) 1
          \<lparr>stage_id = 2, pipeline_id = 7, stage_name = ''test'', build_order = 2, enabled = True\<rparr>))
   \<and> fst (MoveStage example_db (example_stage 1 ''build'' 1 []) 3) = None
   \<and> BuildOrder (fst (snd (MoveStage example_db (example_stage 1 ''build'' 1 []) 3))) = 3
   \<and> map build_order (pipeline_stage (tables (snd (snd
        (MoveStage example_db (example_stage 1 ''build'' 1 []) 3))))) = [3, 1, 2]
   \<and> (build_order (spec_move_row (example_stage 1 ''build'' 1 []) 3
          \<lparr>stage_id = 2, pipeline_id = 7, stage_name = ''test'', build_order = 2, enabled = True\<rparr>)
        < build_order (spec_move_row (example_stage 1 ''build'' 1 []) 3
          \<lparr>stage_id = 3, pipeline_id = 7, stage_name = ''deploy'', build_order = 3, enabled = True\<rparr>))"
proof -
  let ?up = "example_stage 3 ''deploy'' 3 []"
  let ?dn = "example_stage 1 ''build'' 1 []"
  let ?r1 = "\<lparr>stage_id = 1, pipeline_id = 7, stage_name = ''build'', build_order = 1, enabled = True\<rparr>"
  let ?r2 = "\<lparr>stage_id = 2, pipeline_id = 7, stage_name = ''test'', build_order = 2, enabled = True\<rparr>"
  let ?r3 = "\<lparr>stage_id = 3, pipeline_id = 7, stage_name = ''deploy'', build_order = 3, enabled = True\<rparr>"
  have clean: "faults example_db = []" by (simp add: example_defs)
  have fu: "fst (MoveStage example_db ?up 1) = None"
    by (rule MoveStage_shifts_range [THEN conjunct1, THEN mp, OF clean])
  have fd: "fst (MoveStage example_db ?dn 3) = None"
    by (rule MoveStage_shifts_range [THEN conjunct1, THEN mp, OF clean])
  from fu have ru: "MoveStage example_db ?up 1
      = (None, fst (snd (MoveStage example_db ?up 1)), snd (snd (MoveStage example_db ?up 1)))"
    by (metis prod.collapse)
  from fd have rd: "MoveStage example_db ?dn 3
      = (None, fst (snd (MoveStage example_db ?dn 3)), snd (snd (MoveStage example_db ?dn 3)))"
    by (metis prod.collapse)
  note cu = MoveStage_shifts_range [THEN conjunct2, THEN mp, OF ru]
  note cd = MoveStage_shifts_range [THEN conjunct2, THEN mp, OF rd]
  have stu: "stored (tables example_db) ?up \<and> distinct (buildOrders (tables example_db) (PipelineID ?up))"
    and std: "stored (tables example_db) ?dn \<and> distinct (buildOrders (tables example_db) (PipelineID ?dn))"
    by (simp_all add: stored_def buildOrders_def example_defs)
  have mem: "?r1 \<in> set (pipeline_stage (tables example_db))"
    "?r2 \<in> set (pipeline_stage (tables example_db))"
    "?r3 \<in> set (pipeline_stage (tables example_db))"
    by (simp_all add: example_defs)
  have sideu: "pipeline_id ?r1 = PipelineID ?up \<and> pipeline_id ?r2 = PipelineID ?up
             \<and> stage_id ?r1 \<noteq> ID ?up \<and> stage_id ?r2 \<noteq> ID ?up"
    and sided: "pipeline_id ?r2 = PipelineID ?dn \<and> pipeline_id ?r3 = PipelineID ?dn
             \<and> stage_id ?r2 \<noteq> ID ?dn \<and> stage_id ?r3 \<noteq> ID ?dn"
    by (simp_all add: example_defs)
  from cu [THEN conjunct2, THEN conjunct2, THEN mp, OF stu, THEN bspec, OF mem(1), THEN bspec,
      OF mem(2), THEN mp, OF sideu]
  have relu: "build_order (spec_move_row ?up 1 ?r1) < build_order (spec_move_row ?up 1 ?r2)"
    by simp
  from cd [THEN conjunct2, THEN conjunct2, THEN mp, OF std, THEN bspec, OF mem(2), THEN bspec,
      OF mem(3), THEN mp, OF sided]
  have reld: "build_order (spec_move_row ?dn 3 ?r2) < build_order (spec_move_row ?dn 3 ?r3)"
    by simp
  from cu have bu: "BuildOrder (fst (snd (MoveStage example_db ?up 1))) = 1" by blast
  from cd have bd: "BuildOrder (fst (snd (MoveStage example_db ?dn 3))) = 3" by blast
  from cu have rowsu: "pipeline_stage (tables (snd (snd (MoveStage example_db ?up 1))))
      = map (spec_move_row ?up 1) (pipeline_stage (tables example_db))" by blast
  from cd have rowsd: "pipeline_stage (tables (snd (snd (MoveStage example_db ?dn 3))))
      = map (spec_move_row ?dn 3) (pipeline_stage (tables example_db))" by blast
  have ev: "map build_order (map (spec_move_row ?up 1) (pipeline_stage (tables example_db))) = [2, 3, 1]"
    "map build_order (map (spec_move_row ?dn 3) (pipeline_stage (tables example_db))) = [3, 1, 2]"
    "map build_order (pipeline_stage (tables example_db)) = [1, 2, 3]"
    by (simp_all add: spec_move_row_def example_defs)
  from stu std have st': "stored (tables example_db) ?up" "stored (tables example_db) ?dn"
    "distinct (buildOrders (tables example_db) 7)"
    by (simp_all add: example_defs)
  from clean st' ev fu bu relu fd bd reld show ?thesis unfolding rowsu rowsd by (intro conjI)
qed

text \<open>
  Claim C2 as stated fails. The ranges are taken from the in-memory stage: a copy of the
  stage stored at position 3 that still says position 1, moved to position 2, leaves the
  build orders 1, 1, 2, where the move from 3 to 2 the claim describes would leave
  1, 3, 2. And with two stages at build order 2, moving one of them to position 1 turns
  1, 2, 2 into 2, 2, 1: the two other stages, ordered before, are level afterwards.
\<close>

theorem MoveStage_stale_order:
  "map stage_id (pipeline_stage (tables example_db)) = [1, 2, 3]
   \<and> map build_order (pipeline_stage (tables example_db)) = [1, 2, 3]
   \<and> fst (MoveStage example_db (example_stage 3 ''deploy'' 1 []) 2) = None
   \<and> map build_order (pipeline_stage (tables (snd (snd
        (MoveStage example_db (example_stage 3 ''deploy'' 1 []) 2))))) = [1, 1, 2]
   \<and> map build_order (map (spec_move_row (example_stage 3 ''deploy'' 3 []) 2)
        (pipeline_stage (tables example_db))) = [1, 3, 2]
   \<and> map build_order (pipeline_stage (tables example_duplicate_db)) = [1, 2, 2]
   \<and> fst (MoveStage example_duplicate_db (example_stage 3 ''deploy'' 2 []) 1) = None
   \<and> map build_order (pipeline_stage (tables (snd (snd
        (MoveStage example_duplicate_db (example_stage 3 ''deploy'' 2 []) 1))))) = [2, 2, 1]"
  by (simp add: store_defs example_defs example_duplicate_db_def spec_move_row_def)

text \<open>
  Claim C3, as the code has it. A successful move of \<open>s\<close> to its own position shifts no
  other stage, but it runs \<^verbatim>\<open>UpdateStage\<close>: the row of \<open>s\<close> is rewritten with the name,
  build order and enabled flag of the in-memory stage, its prerequisite rows are deleted
  and inserted again from the in-memory list, and the pipeline's last-modified stamp is
  set. The action placements are untouched, and the stored ordering is unchanged when the
  row of \<open>s\<close> already holds that build order.
\<close>

theorem MoveStage_same_position:
  assumes "MoveStage db s (BuildOrder s) = (None, s', db')"
  shows "s' = s
     \<and> pipeline_stage (tables db') =
         map (\<lambda>r. if stage_id r = ID s
                   then r\<lparr>stage_name := Name s, build_order := BuildOrder s, enabled := Enabled s\<rparr>
                   else r) (pipeline_stage (tables db))
     \<and> pipeline_stage_prerequisite (tables db') =
         filter (\<lambda>q. pipeline_stage_id q \<noteq> ID s) (pipeline_stage_prerequisite (tables db))
         @ map (\<lambda>p. \<lparr>pipeline_stage_id = ID s, parameter = Parameter p,
                      expected_value = ExpectedValue p\<rparr>) (Prerequisites s)
     \<and> pipeline (tables db') =
         map (\<lambda>p. if pipeline_key p = PipelineID s then p\<lparr>last_modified := clock db\<rparr> else p)
             (pipeline (tables db))
     \<and> pipeline_action (tables db') = pipeline_action (tables db)
     \<and> ((\<forall>r \<in> set (pipeline_stage (tables db)). stage_id r = ID s \<longrightarrow> build_order r = BuildOrder s)
          \<longrightarrow> map build_order (pipeline_stage (tables db'))
              = map build_order (pipeline_stage (tables db)))"
proof -
  note ok = MoveStage_ok [OF assms]
  have rows: "pipeline_stage (tables db') =
         map (\<lambda>r. if stage_id r = ID s
                   then r\<lparr>stage_name := Name s, build_order := BuildOrder s, enabled := Enabled s\<rparr>
                   else r) (pipeline_stage (tables db))"
    using ok by (simp add: sql_touch_pipeline_def sql_insert_prerequisites_def
        sql_delete_prerequisites_def sql_update_stage_def)
  have "(\<forall>r \<in> set (pipeline_stage (tables db)). stage_id r = ID s \<longrightarrow> build_order r = BuildOrder s)
          \<longrightarrow> map build_order (pipeline_stage (tables db'))
              = map build_order (pipeline_stage (tables db))"
    unfolding rows by (auto simp: o_def)
  moreover have "s' = s" using ok by simp
  moreover have "pipeline_stage_prerequisite (tables db') =
         filter (\<lambda>q. pipeline_stage_id q \<noteq> ID s) (pipeline_stage_prerequisite (tables db))
         @ map (\<lambda>p. \<lparr>pipeline_stage_id = ID s, parameter = Parameter p,
                      expected_value = ExpectedValue p\<rparr>) (Prerequisites s)"
    using ok by (simp add: sql_touch_pipeline_def sql_insert_prerequisites_def
        sql_delete_prerequisites_def sql_update_stage_def)
  moreover have "pipeline (tables db') =
         map (\<lambda>p. if pipeline_key p = PipelineID s then p\<lparr>last_modified := clock db\<rparr> else p)
             (pipeline (tables db))"
    using ok by (simp add: sql_touch_pipeline_def sql_insert_prerequisites_def
        sql_delete_prerequisites_def sql_update_stage_def)
  moreover have "pipeline_action (tables db') = pipeline_action (tables db)"
    using ok by (simp add: sql_touch_pipeline_def sql_insert_prerequisites_def
        sql_delete_prerequisites_def sql_update_stage_def)
  ultimately show ?thesis using rows by blast
qed

text \<open>
  Claim C3 as stated fails: moving the stored stage 2 of the example to its own position 2
  succeeds and changes the pipeline's stamp from 100 to 200; with a changed in-memory
  name the stage row is rewritten too.
\<close>

theorem MoveStage_same_position_writes:
  "fst (MoveStage example_db example_test_stage (BuildOrder example_test_stage)) = None
   \<and> map last_modified (pipeline (tables example_db)) = [100]
   \<and> map last_modified (pipeline (tables (snd (snd
        (MoveStage example_db example_test_stage (BuildOrder example_test_stage)))))) = [200]
   \<and> map stage_name (pipeline_stage (tables example_db)) = [''build'', ''test'', ''deploy'']
   \<and> map stage_name (pipeline_stage (tables (snd (snd
        (MoveStage example_db (example_test_stage\<lparr>Name := ''check''\<rparr>)
           (BuildOrder (example_test_stage\<lparr>Name := ''check''\<rparr>))))))) = [''build'', ''check'', ''deploy'']"
  by (simp add: store_defs example_defs)

text \<open>
  Claim C3, the amended statement at the example: the stage as loaded from the store,
  moved to its own position, leaves the stage and prerequisite tables with their contents
  and the pipeline stamped.
\<close>

theorem MoveStage_same_position_witness:
  "fst (MoveStage example_db example_test_stage (BuildOrder example_test_stage)) = None
   \<and> fst (snd (MoveStage example_db example_test_stage (BuildOrder example_test_stage)))
       = example_test_stage
   \<and> pipeline_stage (tables (snd (snd
        (MoveStage example_db example_test_stage (BuildOrder example_test_stage)))))
       = pipeline_stage (tables example_db)
   \<and> pipeline_stage_prerequisite (tables (snd (snd
        (MoveStage example_db example_test_stage (BuildOrder example_test_stage)))))
       = pipeline_stage_prerequisite (tables example_db)
   \<and> map last_modified (pipeline (tables (snd (snd
        (MoveStage example_db example_test_stage (BuildOrder example_test_stage)))))) = [200]
   \<and> map build_order (pipeline_stage (tables example_db)) = [1, 2, 3]
   \<and> map build_order (pipeline_stage (tables (snd (snd
        (MoveStage example_db example_test_stage (BuildOrder example_test_stage))))))
       = map build_order (pipeline_stage (tables example_db))"
proof -
  let ?m = "MoveStage example_db example_test_stage (BuildOrder example_test_stage)"
  have run: "?m = (None, fst (snd ?m), snd (snd ?m))"
    by (simp add: store_defs example_defs)
  note concl = MoveStage_same_position [OF run]
  from run have f: "fst ?m = None" by (metis fst_conv)
  from concl have s: "fst (snd ?m) = example_test_stage" by blast
  from concl have rows: "pipeline_stage (tables (snd (snd ?m))) =
         map (\<lambda>r. if stage_id r = ID example_test_stage
                   then r\<lparr>stage_name := Name example_test_stage,
                          build_order := BuildOrder example_test_stage,
                          enabled := Enabled example_test_stage\<rparr>
                   else r) (pipeline_stage (tables example_db))" by blast
  from concl have pre: "pipeline_stage_prerequisite (tables (snd (snd ?m))) =
         filter (\<lambda>q. pipeline_stage_id q \<noteq> ID example_test_stage)
                (pipeline_stage_prerequisite (tables example_db))
         @ map (\<lambda>p. \<lparr>pipeline_stage_id = ID example_test_stage, parameter = Parameter p,
                      expected_value = ExpectedValue p\<rparr>) (Prerequisites example_test_stage)" by blast
  from concl have pip: "pipeline (tables (snd (snd ?m))) =
         map (\<lambda>p. if pipeline_key p = PipelineID example_test_stage
                   then p\<lparr>last_modified := clock example_db\<rparr> else p)
             (pipeline (tables example_db))" by blast
  have held: "\<forall>r \<in> set (pipeline_stage (tables example_db)).
      stage_id r = ID example_test_stage \<longrightarrow> build_order r = BuildOrder example_test_stage"
    by (simp add: example_defs)
  from concl have "(\<forall>r \<in> set (pipeline_stage (tables example_db)).
      stage_id r = ID example_test_stage \<longrightarrow> build_order r = BuildOrder example_test_stage)
    \<longrightarrow> map build_order (pipeline_stage (tables (snd (snd ?m))))
        = map build_order (pipeline_stage (tables example_db))" by blast
  with held have order: "map build_order (pipeline_stage (tables (snd (snd ?m))))
        = map build_order (pipeline_stage (tables example_db))" by (rule rev_mp)
  have orig: "map build_order (pipeline_stage (tables example_db)) = [1, 2, 3]"
    by (simp add: example_defs)
  have "pipeline_stage (tables (snd (snd ?m))) = pipeline_stage (tables example_db)"
    "pipeline_stage_prerequisite (tables (snd (snd ?m)))
       = pipeline_stage_prerequisite (tables example_db)"
    "map last_modified (pipeline (tables (snd (snd ?m)))) = [200]"
    unfolding rows pre pip by (simp_all add: example_defs)
  with f s order orig show ?thesis by (simp only: simp_thms)
qed






subsection \<open>The build-order invariant over sequences of calls\<close>

lemma fold_max_lower: "(a::int) \<le> fold max xs a"
proof (induction xs arbitrary: a)
  case Nil
  then show ?case by simp
next
  case (Cons x xs)
  have "a \<le> max x a" by simp
  also have "\<dots> \<le> fold max xs (max x a)" by (rule Cons.IH)
  finally show ?case by simp
qed

lemma fold_max_upper: "x \<in> set xs \<Longrightarrow> (x::int) \<le> fold max xs a"
proof (induction xs arbitrary: a)
  case Nil
  then show ?case by simp
next
  case (Cons y ys)
  show ?case
  proof (cases "x = y")
    case True
    have "x \<le> max y a" using True by simp
    also have "\<dots> \<le> fold max ys (max y a)" by (rule fold_max_lower)
    finally show ?thesis by simp
  next
    case False
    with Cons.prems have "x \<in> set ys" by simp
    from Cons.IH [OF this] show ?thesis by simp
  qed
qed

lemma next_stage_id_fresh: "next_stage_id d \<notin> set (map stage_id (pipeline_stage d))"
proof
  assume "next_stage_id d \<in> set (map stage_id (pipeline_stage d))"
  from fold_max_upper [OF this, of 0] show False by (simp add: next_stage_id_def)
qed

lemma count_buildOrders: "sql_count_stages pid d = int (length (buildOrders d pid))"
  by (simp add: sql_count_stages_def buildOrders_def)

lemma InsertStage_rows:
  assumes "InsertStage c s = (None, s', c')"
  shows "pipeline_stage (tables c') = pipeline_stage (tables c) @
           [\<lparr>stage_id = next_stage_id (tables c), pipeline_id = PipelineID s,
             stage_name = Name s, build_order = BuildOrder s, enabled = True\<rparr>]"
proof -
  from assms obtain newID c1 where
    q: "QueryRowReturning (sql_insert_stage (PipelineID s) (Name s) (BuildOrder s) True) c
          = (Inr newID, c1)"
    and p: "InsertStagePrequisites c1 (s\<lparr>Enabled := True, ID := newID\<rparr>) = (None, c')"
    by (auto simp: InsertStage_def Let_def split: prod.splits sum.splits)
  from QueryRowReturning_ok [OF q] InsertStagePrequisites_ok [OF p] show ?thesis
    by (simp add: sql_insert_stage_def sql_touch_pipeline_def sql_insert_prerequisites_def)
qed

lemma DeleteStageByID_rows:
  assumes "DeleteStageByID c s u = (None, c')"
  shows "pipeline_stage (tables c') =
     map (\<lambda>r. if build_order r \<le> sql_count_stages (PipelineID s) (tables c)
                  \<and> build_order r > BuildOrder s \<and> pipeline_id r = PipelineID s
               then r\<lparr>build_order := build_order r - 1\<rparr> else r)
         (filter (\<lambda>r. stage_id r \<noteq> ID s) (pipeline_stage (tables c)))"
proof -
  from assms obtain nb c1 c2 c3 where
    q: "Query (sql_count_stages (PipelineID s)) c = (Inr nb, c1)"
    and a: "DeletePipelineActionByStage c1 (ID s) u = (None, c2)"
    and d: "deleteStageByID c2 s = (None, c3)"
    and m: "moveDownStages c3 (PipelineID s) (BuildOrder s) nb = (None, c')"
    by (auto simp: DeleteStageByID_def CountStageByPipelineID_def
        split: prod.splits sum.splits option.splits)
  from d obtain c4 where
    d1: "Exec (sql_delete_prerequisites (ID s)) c2 = (None, c4)"
    and d2: "Exec (sql_delete_stage (ID s)) c4 = (None, c3)"
    by (auto simp: deleteStageByID_def deleteStagePrerequisites_def
        split: prod.splits option.splits)
  from a have a': "Exec (sql_delete_pipeline_actions (ID s)) c1 = (None, c2)"
    by (simp add: DeletePipelineActionByStage_def)
  from m have m': "Exec (sql_move_down nb (BuildOrder s) (PipelineID s)) c3 = (None, c')"
    by (simp add: moveDownStages_def)
  from Query_ok [OF q] Exec_ok [OF a'] Exec_ok [OF d1] Exec_ok [OF d2] Exec_ok [OF m']
  show ?thesis
    by (simp add: sql_delete_pipeline_actions_def sql_delete_prerequisites_def
        sql_delete_stage_def sql_move_down_def)
qed

lemma dense_append: "dense bs \<Longrightarrow> dense (bs @ [int (length bs) + 1])"
  by (auto simp: dense_def)

lemma move_shift_inj:
  "inj_on (\<lambda>b::int. if b = pos then n
                          else if n \<le> b \<and> b < pos then b + 1
                          else if pos < b \<and> b \<le> n then b - 1 else b) S"
  by (rule inj_onI) (simp split: if_splits)

lemma move_shift_range:
  assumes "1 \<le> pos" "pos \<le> N" "1 \<le> n" "n \<le> N"
  shows "(\<lambda>b::int. if b = pos then n
                          else if n \<le> b \<and> b < pos then b + 1
                          else if pos < b \<and> b \<le> n then b - 1 else b) ` {1..N} \<subseteq> {1..N}"
proof
  fix y assume "y \<in> (\<lambda>b::int. if b = pos then n
                          else if n \<le> b \<and> b < pos then b + 1
                          else if pos < b \<and> b \<le> n then b - 1 else b) ` {1..N}"
  then obtain b where y: "y = (if b = pos then n
                          else if n \<le> b \<and> b < pos then b + 1
                          else if pos < b \<and> b \<le> n then b - 1 else b)"
    and bm: "b \<in> {1..N}" by (rule imageE)
  from bm have b: "1 \<le> b" "b \<le> N" by simp_all
  from y b assms have "1 \<le> y \<and> y \<le> N" by (simp split: if_splits)
  then show "y \<in> {1..N}" by simp
qed

lemma delete_shift_inj:
  "inj_on (\<lambda>b::int. if b \<le> N \<and> b > pos then b - 1 else b) ({1..N} - {pos})"
  by (rule inj_onI) (simp split: if_splits)

lemma delete_shift_range:
  assumes "1 \<le> pos" "pos \<le> N" 
  shows "(\<lambda>b::int. if b \<le> N \<and> b > pos then b - 1 else b) ` ({1..N} - {pos}) \<subseteq> {1..N - 1}"
proof
  fix y assume "y \<in> (\<lambda>b::int. if b \<le> N \<and> b > pos then b - 1 else b) ` ({1..N} - {pos})"
  then obtain b where y: "y = (if b \<le> N \<and> b > pos then b - 1 else b)"
    and bm: "b \<in> {1..N} - {pos}" by (rule imageE)
  from bm have b: "1 \<le> b" "b \<le> N" "b \<noteq> pos" by simp_all
  from y b assms have "1 \<le> y \<and> y \<le> N - 1" by (simp split: if_splits)
  then show "y \<in> {1..N - 1}" by simp
qed


lemma dense_image_sub:
  assumes dist: "distinct ys" and inj: "inj_on h (set ys)"
    and sub: "h ` set ys \<subseteq> {1..int (length ys)}"
  shows "dense (map h ys)"
proof -
  have "card (h ` set ys) = card (set ys)" using inj by (rule card_image)
  also have "\<dots> = length ys" by (rule distinct_card [OF dist])
  also have "\<dots> = card {1..int (length ys)}" by simp
  finally have c: "card (h ` set ys) = card {1..int (length ys)}" .
  have f: "finite {1..int (length ys)}" by simp
  from card_subset_eq [OF f sub c] have "h ` set ys = {1..int (length ys)}" .
  with dist inj show ?thesis by (simp add: dense_def distinct_map)
qed

lemma dense_delete:
  assumes d: "dense bs" and pos: "pos \<in> set bs"
  shows "dense (map (\<lambda>b. if b \<le> int (length bs) \<and> b > pos then b - 1 else b)
                    (filter (\<lambda>b. b \<noteq> pos) bs))"
proof (rule dense_image_sub)
  from d have dist: "distinct bs" and set: "set bs = {1..int (length bs)}"
    by (simp_all add: dense_def)
  from pos set have pos': "1 \<le> pos" "pos \<le> int (length bs)" by simp_all
  have "set (filter (\<lambda>b. b \<noteq> pos) bs) = set bs - {pos}" by (simp only: set_filter) blast
  then have sys: "set (filter (\<lambda>b. b \<noteq> pos) bs) = {1..int (length bs)} - {pos}"
    by (simp only: set)
  show dys: "distinct (filter (\<lambda>b. b \<noteq> pos) bs)" using dist by (rule distinct_filter)
  have "length (filter (\<lambda>b. b \<noteq> pos) bs) = card (set (filter (\<lambda>b. b \<noteq> pos) bs))"
    by (rule distinct_card [OF dys, symmetric])
  also have "\<dots> = card ({1..int (length bs)} - {pos})" by (simp only: sys)
  also have "\<dots> = card {1..int (length bs)} - 1"
    using pos' by (intro card_Diff_singleton) simp
  also have "\<dots> = length bs - 1" by simp
  finally have "length (filter (\<lambda>b. b \<noteq> pos) bs) = length bs - 1" .
  with pos' have len: "int (length (filter (\<lambda>b. b \<noteq> pos) bs)) = int (length bs) - 1"
    by linarith
  show "inj_on (\<lambda>b. if b \<le> int (length bs) \<and> b > pos then b - 1 else b)
          (set (filter (\<lambda>b. b \<noteq> pos) bs))"
    unfolding sys by (rule delete_shift_inj)
  show "(\<lambda>b. if b \<le> int (length bs) \<and> b > pos then b - 1 else b)
          ` set (filter (\<lambda>b. b \<noteq> pos) bs)
        \<subseteq> {1..int (length (filter (\<lambda>b. b \<noteq> pos) bs))}"
    unfolding sys len using pos' by (rule delete_shift_range)
qed

lemma dense_move:
  assumes d: "dense bs" and pos: "pos \<in> set bs" and n: "1 \<le> n" "n \<le> int (length bs)"
  shows "dense (map (\<lambda>b. if b = pos then n
                          else if n \<le> b \<and> b < pos then b + 1
                          else if pos < b \<and> b \<le> n then b - 1 else b) bs)"
proof (rule dense_image_sub)
  from d show dist: "distinct bs" by (simp add: dense_def)
  from d have set: "set bs = {1..int (length bs)}" by (simp add: dense_def)
  from pos set have pos': "1 \<le> pos" "pos \<le> int (length bs)" by simp_all
  show "inj_on (\<lambda>b. if b = pos then n
                          else if n \<le> b \<and> b < pos then b + 1
                          else if pos < b \<and> b \<le> n then b - 1 else b) (set bs)"
    by (rule move_shift_inj)
  show "(\<lambda>b. if b = pos then n
                          else if n \<le> b \<and> b < pos then b + 1
                          else if pos < b \<and> b \<le> n then b - 1 else b) ` set bs
        \<subseteq> {1..int (length bs)}"
    unfolding set using pos' n by (rule move_shift_range)
qed

lemma buildOrders_map_rows:
  assumes "\<And>r. pipeline_id (f r) = pipeline_id r"
  shows "map build_order (filter (\<lambda>r. pipeline_id r = pid) (map f rows))
       = map (\<lambda>r. build_order (f r)) (filter (\<lambda>r. pipeline_id r = pid) rows)"
  by (induction rows) (simp_all add: assms)

lemma spec_move_row_ids [simp]:
  "stage_id (spec_move_row s n r) = stage_id r" "pipeline_id (spec_move_row s n r) = pipeline_id r"
  by (simp_all add: spec_move_row_def)

lemma stored_order_mem:
  "stored d s \<Longrightarrow> BuildOrder s \<in> set (buildOrders d (PipelineID s))"
  by (auto simp: stored_def buildOrders_def image_iff)

lemma move_preserves:
  assumes ok: "MoveStage c s n = (None, s', c')"
    and st: "stored (tables c) s" and n: "1 \<le> n" "n \<le> sql_count_stages (PipelineID s) (tables c)"
    and ids: "distinct (map stage_id (pipeline_stage (tables c)))"
    and d: "dense (buildOrders (tables c) pid)"
  shows "distinct (map stage_id (pipeline_stage (tables c'))) \<and> dense (buildOrders (tables c') pid)"
proof
  note rows = MoveStage_rows [OF ok]
  show "distinct (map stage_id (pipeline_stage (tables c')))"
    using ids by (simp add: rows o_def)
  have bo: "buildOrders (tables c') pid
      = map (\<lambda>r. build_order (spec_move_row s n r))
            (filter (\<lambda>r. pipeline_id r = pid) (pipeline_stage (tables c)))"
    unfolding buildOrders_def rows by (rule buildOrders_map_rows) simp
  show "dense (buildOrders (tables c') pid)"
  proof (cases "PipelineID s = pid")
    case False
    have "map (\<lambda>r. build_order (spec_move_row s n r))
            (filter (\<lambda>r. pipeline_id r = pid) (pipeline_stage (tables c)))
        = map build_order (filter (\<lambda>r. pipeline_id r = pid) (pipeline_stage (tables c)))"
    proof (rule map_cong [OF refl])
      fix r assume "r \<in> set (filter (\<lambda>r. pipeline_id r = pid) (pipeline_stage (tables c)))"
      then have r: "r \<in> set (pipeline_stage (tables c))" "pipeline_id r = pid" by simp_all
      with False stored_by_id [OF ids st r(1)] have "stage_id r \<noteq> ID s" by auto
      with r False show "build_order (spec_move_row s n r) = build_order r"
        by (simp add: spec_move_row_def)
    qed
    with bo d show ?thesis by (simp add: buildOrders_def)
  next
    case True
    from d True have dd: "distinct (buildOrders (tables c) (PipelineID s))"
      by (simp add: dense_def)
    have "map (\<lambda>r. build_order (spec_move_row s n r))
            (filter (\<lambda>r. pipeline_id r = pid) (pipeline_stage (tables c)))
        = map (\<lambda>r. (\<lambda>b. if b = BuildOrder s then n
                          else if n \<le> b \<and> b < BuildOrder s then b + 1
                          else if BuildOrder s < b \<and> b \<le> n then b - 1 else b) (build_order r))
              (filter (\<lambda>r. pipeline_id r = pid) (pipeline_stage (tables c)))"
    proof (rule map_cong [OF refl])
      fix r assume "r \<in> set (filter (\<lambda>r. pipeline_id r = pid) (pipeline_stage (tables c)))"
      then have r: "r \<in> set (pipeline_stage (tables c))" "pipeline_id r = PipelineID s"
        using True by simp_all
      have "(stage_id r = ID s) = (build_order r = BuildOrder s)"
        using stored_by_id [OF ids st r(1)] stored_by_order [OF dd st r] by blast
      with r show "build_order (spec_move_row s n r)
          = (\<lambda>b. if b = BuildOrder s then n
                          else if n \<le> b \<and> b < BuildOrder s then b + 1
                          else if BuildOrder s < b \<and> b \<le> n then b - 1 else b) (build_order r)"
        by (simp add: spec_move_row_def)
    qed
    then have bo': "buildOrders (tables c') pid
        = map (\<lambda>b. if b = BuildOrder s then n
                          else if n \<le> b \<and> b < BuildOrder s then b + 1
                          else if BuildOrder s < b \<and> b \<le> n then b - 1 else b)
              (buildOrders (tables c) pid)"
      unfolding bo by (simp add: buildOrders_def)
    from stored_order_mem [OF st] True
    have mem: "BuildOrder s \<in> set (buildOrders (tables c) pid)" by simp
    from n True have n': "n \<le> int (length (buildOrders (tables c) pid))"
      by (simp add: count_buildOrders)
    from dense_move [OF d mem n(1) n'] show ?thesis unfolding bo' .
  qed
qed

lemma delete_preserves:
  assumes ok: "DeleteStageByID c s u = (None, c')"
    and st: "stored (tables c) s"
    and ids: "distinct (map stage_id (pipeline_stage (tables c)))"
    and d: "dense (buildOrders (tables c) pid)"
  shows "distinct (map stage_id (pipeline_stage (tables c'))) \<and> dense (buildOrders (tables c') pid)"
proof
  let ?N = "sql_count_stages (PipelineID s) (tables c)"
  let ?g = "\<lambda>r. if build_order r \<le> ?N \<and> build_order r > BuildOrder s
                     \<and> pipeline_id r = PipelineID s
                  then r\<lparr>build_order := build_order r - 1\<rparr> else r"
  let ?rows = "pipeline_stage (tables c)"
  note rows = DeleteStageByID_rows [OF ok]
  have gid: "map stage_id (map ?g xs) = map stage_id xs" for xs
    by (induction xs) simp_all
  show "distinct (map stage_id (pipeline_stage (tables c')))"
    unfolding rows gid using ids by (rule distinct_map_filter)
  have bo: "buildOrders (tables c') pid
      = map (\<lambda>r. build_order (?g r))
            (filter (\<lambda>r. pipeline_id r = pid) (filter (\<lambda>r. stage_id r \<noteq> ID s) ?rows))"
    unfolding buildOrders_def rows by (rule buildOrders_map_rows) simp
  show "dense (buildOrders (tables c') pid)"
  proof (cases "PipelineID s = pid")
    case False
    have f: "filter (\<lambda>r. pipeline_id r = pid) (filter (\<lambda>r. stage_id r \<noteq> ID s) ?rows)
           = filter (\<lambda>r. pipeline_id r = pid) ?rows"
      unfolding filter_filter
    proof (rule filter_cong [OF refl])
      fix r assume r: "r \<in> set ?rows"
      from False stored_by_id [OF ids st r]
      show "(stage_id r \<noteq> ID s \<and> pipeline_id r = pid) = (pipeline_id r = pid)" by auto
    qed
    have m: "map (\<lambda>r. build_order (?g r)) (filter (\<lambda>r. pipeline_id r = pid) ?rows)
        = map build_order (filter (\<lambda>r. pipeline_id r = pid) ?rows)"
    proof (rule map_cong [OF refl])
      fix r assume "r \<in> set (filter (\<lambda>r. pipeline_id r = pid) ?rows)"
      then have "pipeline_id r \<noteq> PipelineID s" using False by simp
      then show "build_order (?g r) = build_order r" by simp
    qed
    have "buildOrders (tables c') pid = buildOrders (tables c) pid"
      unfolding bo f m by (simp only: buildOrders_def)
    with d show ?thesis by (simp only:)
  next
    case True
    from d True have dd: "distinct (buildOrders (tables c) (PipelineID s))"
      by (simp add: dense_def)
    have f: "filter (\<lambda>r. pipeline_id r = pid) (filter (\<lambda>r. stage_id r \<noteq> ID s) ?rows)
           = filter (\<lambda>r. build_order r \<noteq> BuildOrder s) (filter (\<lambda>r. pipeline_id r = pid) ?rows)"
      unfolding filter_filter
    proof (rule filter_cong [OF refl])
      fix r assume r: "r \<in> set ?rows"
      show "(stage_id r \<noteq> ID s \<and> pipeline_id r = pid)
          = (pipeline_id r = pid \<and> build_order r \<noteq> BuildOrder s)"
        using stored_by_id [OF ids st r] stored_by_order [OF dd st r] True by auto
    qed
    have N: "?N = int (length (buildOrders (tables c) pid))"
      using True by (simp add: count_buildOrders)
    have "map (\<lambda>r. build_order (?g r))
             (filter (\<lambda>r. build_order r \<noteq> BuildOrder s) (filter (\<lambda>r. pipeline_id r = pid) ?rows))
        = map (\<lambda>r. (\<lambda>b. if b \<le> int (length (buildOrders (tables c) pid)) \<and> b > BuildOrder s
                          then b - 1 else b) (build_order r))
             (filter (\<lambda>r. build_order r \<noteq> BuildOrder s) (filter (\<lambda>r. pipeline_id r = pid) ?rows))"
    proof (rule map_cong [OF refl])
      fix r assume "r \<in> set (filter (\<lambda>r. build_order r \<noteq> BuildOrder s)
                                (filter (\<lambda>r. pipeline_id r = pid) ?rows))"
      then have "pipeline_id r = PipelineID s" using True by simp
      then show "build_order (?g r)
          = (\<lambda>b. if b \<le> int (length (buildOrders (tables c) pid)) \<and> b > BuildOrder s
                          then b - 1 else b) (build_order r)"
        unfolding N by simp
    qed
    also have "\<dots> = map (\<lambda>b. if b \<le> int (length (buildOrders (tables c) pid)) \<and> b > BuildOrder s
                              then b - 1 else b)
                         (filter (\<lambda>b. b \<noteq> BuildOrder s) (buildOrders (tables c) pid))"
      by (simp add: buildOrders_def filter_map o_def)
    finally have bo': "buildOrders (tables c') pid
        = map (\<lambda>b. if b \<le> int (length (buildOrders (tables c) pid)) \<and> b > BuildOrder s
                              then b - 1 else b)
                         (filter (\<lambda>b. b \<noteq> BuildOrder s) (buildOrders (tables c) pid))"
      unfolding bo f .
    from stored_order_mem [OF st] True
    have mem: "BuildOrder s \<in> set (buildOrders (tables c) pid)" by simp
    from dense_delete [OF d mem] show ?thesis unfolding bo' .
  qed
qed

lemma Exec_stage_rows:
  assumes "Exec f c = (r, c')" and "\<And>d. pipeline_stage (f d) = pipeline_stage d"
  shows "pipeline_stage (tables c') = pipeline_stage (tables c)"
proof (cases r)
  case None
  with assms(1) Exec_ok [of f c c'] assms(2) show ?thesis by simp
next
  case (Some e)
  with assms(1) Exec_err [of f c e c'] show ?thesis by simp
qed

lemma InsertStagePrequisites_stage_rows:
  assumes "InsertStagePrequisites c s = (r, c')"
  shows "pipeline_stage (tables c') = pipeline_stage (tables c)"
proof -
  obtain r1 c1 where e: "(if length (Prerequisites s) > 0
            then Exec (sql_insert_prerequisites (ID s) (Prerequisites s)) c
            else (None, c)) = (r1, c1)" by (metis surj_pair)
  have c1: "pipeline_stage (tables c1) = pipeline_stage (tables c)"
  proof (cases "length (Prerequisites s) > 0")
    case True
    with e have "Exec (sql_insert_prerequisites (ID s) (Prerequisites s)) c = (r1, c1)" by simp
    then show ?thesis by (rule Exec_stage_rows) (simp add: sql_insert_prerequisites_def)
  next
    case False
    with e show ?thesis by simp
  qed
  show ?thesis
  proof (cases r1)
    case (Some err)
    with assms e have "c' = c1" by (simp add: InsertStagePrequisites_def)
    with c1 show ?thesis by simp
  next
    case None
    with assms e have "Exec (sql_touch_pipeline (PipelineID s) (clock c1)) c1 = (r, c')"
      by (simp add: InsertStagePrequisites_def UpdatePipelineLastModified_def)
    then have "pipeline_stage (tables c') = pipeline_stage (tables c1)"
      by (rule Exec_stage_rows) (simp add: sql_touch_pipeline_def)
    with c1 show ?thesis by simp
  qed
qed

lemma InsertStage_rows_any:
  assumes "InsertStage c s = (r, s', c')"
  shows "pipeline_stage (tables c') = pipeline_stage (tables c)
       \<or> pipeline_stage (tables c') = pipeline_stage (tables c) @
           [\<lparr>stage_id = next_stage_id (tables c), pipeline_id = PipelineID s,
             stage_name = Name s, build_order = BuildOrder s, enabled = True\<rparr>]"
proof -
  obtain q c1 where q: "QueryRowReturning
      (sql_insert_stage (PipelineID s) (Name s) (BuildOrder s) True) c = (q, c1)"
    by (metis surj_pair)
  show ?thesis
  proof (cases q)
    case (Inl err)
    with q have "tables c1 = tables c"
      by (auto simp: QueryRowReturning_def split: prod.splits option.splits dest: nextFault_frame)
    moreover from assms q Inl have "c' = c1" by (simp add: InsertStage_def Let_def)
    ultimately show ?thesis by simp
  next
    case (Inr newID)
    with q QueryRowReturning_ok [of _ c newID c1]
    have t1: "tables c1 = snd (sql_insert_stage (PipelineID s) (Name s) (BuildOrder s) True (tables c))"
      by simp
    from assms q Inr obtain err where
      "InsertStagePrequisites c1 (s\<lparr>Enabled := True, ID := newID\<rparr>) = (err, c')"
      by (auto simp: InsertStage_def Let_def split: prod.splits)
    from InsertStagePrequisites_stage_rows [OF this] t1 show ?thesis
      by (simp add: sql_insert_stage_def)
  qed
qed

lemma insert_preserves_any:
  assumes ok: "InsertStage c s = (r, s', c')"
    and app: "BuildOrder s = sql_count_stages (PipelineID s) (tables c) + 1"
    and ids: "distinct (map stage_id (pipeline_stage (tables c)))"
    and d: "dense (buildOrders (tables c) pid)"
  shows "distinct (map stage_id (pipeline_stage (tables c'))) \<and> dense (buildOrders (tables c') pid)"
proof -
  from InsertStage_rows_any [OF ok] show ?thesis
  proof
    assume "pipeline_stage (tables c') = pipeline_stage (tables c)"
    with ids d show ?thesis by (simp add: buildOrders_def)
  next
    assume rows: "pipeline_stage (tables c') = pipeline_stage (tables c) @
           [\<lparr>stage_id = next_stage_id (tables c), pipeline_id = PipelineID s,
             stage_name = Name s, build_order = BuildOrder s, enabled = True\<rparr>]"
    have i: "distinct (map stage_id (pipeline_stage (tables c')))"
      using ids next_stage_id_fresh [of "tables c"] by (simp add: rows)
    have "dense (buildOrders (tables c') pid)"
    proof (cases "PipelineID s = pid")
      case True
      with app have "buildOrders (tables c') pid
          = buildOrders (tables c) pid @ [int (length (buildOrders (tables c) pid)) + 1]"
        by (simp add: buildOrders_def rows sql_count_stages_def)
      with dense_append [OF d] show ?thesis by simp
    next
      case False
      then have "buildOrders (tables c') pid = buildOrders (tables c) pid"
        by (simp add: buildOrders_def rows)
      with d show ?thesis by simp
    qed
    with i show ?thesis ..
  qed
qed

lemma MoveStage_failure:
  assumes "MoveStage c s n = (Some err, s', c')"
  shows "tables c' = tables c"
proof -
  from assms consider
    (fail_begin) "Begin c = (Some err, c')"
    | (fail_later) tx where "c' = Rollback c tx"
    by (auto simp: MoveStage_def Let_def split: prod.splits option.splits)
  then show ?thesis
  proof cases
    case fail_begin
    then show ?thesis by (auto simp: Begin_def dest: nextFault_frame)
  next
    case fail_later
    then show ?thesis by (simp add: Rollback_def)
  qed
qed

lemma deleteStage_failure:
  assumes "deleteStage c s u = (Some err, c')"
  shows "tables c' = tables c"
proof -
  from assms consider
    (fail_begin) "Begin c = (Some err, c')"
    | (fail_later) tx where "c' = Rollback c tx"
    by (auto simp: deleteStage_def split: prod.splits option.splits)
  then show ?thesis
  proof cases
    case fail_begin
    then show ?thesis by (auto simp: Begin_def dest: nextFault_frame)
  next
    case fail_later
    then show ?thesis by (simp add: Rollback_def)
  qed
qed

lemma deleteStage_success:
  assumes "deleteStage c s u = (None, c')"
  shows "\<exists>tx tx1. tables tx = tables c \<and> DeleteStageByID tx s u = (None, tx1)
                 \<and> tables c' = tables tx1"
proof -
  from assms obtain tx tx1 where b: "Begin c = (None, tx)"
    and d: "DeleteStageByID tx s u = (None, tx1)" and k: "Commit tx1 = (None, c')"
    by (auto simp: deleteStage_def split: prod.splits option.splits)
  from b have "tables tx = tables c" by (auto simp: Begin_def dest: nextFault_frame)
  moreover from k have "tables c' = tables tx1" by (auto simp: Commit_def dest: nextFault_frame)
  ultimately show ?thesis using d by blast
qed

lemma perform_preserves:
  assumes app: "applicable (tables c) op" and ok: "perform c op = (r, c')"
    and ids: "distinct (map stage_id (pipeline_stage (tables c)))"
    and d: "dense (buildOrders (tables c) pid)"
  shows "distinct (map stage_id (pipeline_stage (tables c'))) \<and> dense (buildOrders (tables c') pid)"
proof (cases op)
  case (OpInsert s)
  with ok obtain s' where "InsertStage c s = (r, s', c')"
    by (auto split: prod.splits)
  from insert_preserves_any [OF this _ ids d] app OpInsert show ?thesis by simp
next
  case (OpDelete s u)
  with ok have del: "deleteStage c s u = (r, c')" by simp
  show ?thesis
  proof (cases r)
    case (Some err)
    with del deleteStage_failure [of c s u err c'] have "tables c' = tables c" by simp
    with ids d show ?thesis by simp
  next
    case None
    with del deleteStage_success [of c s u c'] obtain tx tx1 where
      tx: "tables tx = tables c" and run: "DeleteStageByID tx s u = (None, tx1)"
      and c': "tables c' = tables tx1" by blast
    from app OpDelete tx have st: "stored (tables tx) s" by simp
    from delete_preserves [OF run st, of pid] ids d tx c' show ?thesis by simp
  qed
next
  case (OpMove s n)
  with ok obtain s' where mv: "MoveStage c s n = (r, s', c')"
    by (auto split: prod.splits)
  show ?thesis
  proof (cases r)
    case (Some err)
    with mv MoveStage_failure [of c s n err s' c'] have "tables c' = tables c" by simp
    with ids d show ?thesis by simp
  next
    case None
    with mv have "MoveStage c s n = (None, s', c')" by simp
    from move_preserves [OF this _ _ _ ids d] app OpMove show ?thesis by simp
  qed
qed

lemma run_preserves:
  "run c ops = Some c' \<Longrightarrow> distinct (map stage_id (pipeline_stage (tables c))) \<Longrightarrow>
   dense (buildOrders (tables c) pid) \<Longrightarrow>
   distinct (map stage_id (pipeline_stage (tables c'))) \<and> dense (buildOrders (tables c') pid)"
proof (induction ops arbitrary: c)
  case Nil
  then show ?case by simp
next
  case (Cons op ops)
  from Cons.prems(1) have app: "applicable (tables c) op"
    and rest: "run (snd (perform c op)) ops = Some c'"
    by (auto split: if_splits)
  have "perform c op = (fst (perform c op), snd (perform c op))" by simp
  from perform_preserves [OF app this Cons.prems(2,3)]
  have "distinct (map stage_id (pipeline_stage (tables (snd (perform c op)))))"
    "dense (buildOrders (tables (snd (perform c op))) pid)"
    by simp_all
  from Cons.IH [OF rest this] show ?case .
qed

text \<open>
  Claim C1, as the code has it. Take a store whose stage keys are unique and a pipeline
  whose build orders are exactly \<open>1..N\<close>, and any sequence of \<^verbatim>\<open>InsertStage\<close>,
  \<^verbatim>\<open>MoveStage\<close> and transactional \<^verbatim>\<open>DeleteStageByID\<close> calls (on any pipelines) in
  which every insert appends at \<open>count + 1\<close>, every deleted or moved stage is a stored one
  (its key, pipeline and build order are those of a row) and every move targets a
  position in \<open>1..count\<close>. Whether the single calls return an error or not, the build
  orders of the pipeline are again exactly \<open>1..N\<close> without duplicates, for the stage count
  \<open>N\<close> at that point. The sequence is arbitrary, so this holds after each of its calls.
\<close>

theorem build_order_invariant:
  assumes "distinct (map stage_id (pipeline_stage (tables db)))"
    and "distinct (buildOrders (tables db) pid)"
    and "set (buildOrders (tables db) pid) = {1..sql_count_stages pid (tables db)}"
    and "run db ops = Some db'"
  shows "distinct (buildOrders (tables db') pid)
       \<and> set (buildOrders (tables db') pid) = {1..sql_count_stages pid (tables db')}
       \<and> distinct (map stage_id (pipeline_stage (tables db')))"
proof -
  from assms(2,3) have "dense (buildOrders (tables db) pid)"
    by (simp add: dense_def count_buildOrders)
  from run_preserves [OF assms(4,1) this] show ?thesis
    by (simp add: dense_def count_buildOrders)
qed

text \<open>
  Claim C1, the amended statement on the example: the delete of the second stage fails at
  its shift and is rolled back, then the third stage is moved to the front and a fourth
  stage is appended.
\<close>

theorem build_order_invariant_witness:
  "distinct (map stage_id (pipeline_stage (tables example_faulty_db)))
   \<and> buildOrders (tables example_faulty_db) 7 = [1, 2, 3]
   \<and> fst (perform example_faulty_db (OpDelete example_test_stage 42)) = Some ErrStorage
   \<and> run example_faulty_db example_operations \<noteq> None
   \<and> buildOrders (tables (the (run example_faulty_db example_operations))) 7 = [2, 3, 1, 4]
   \<and> sql_count_stages 7 (tables (the (run example_faulty_db example_operations))) = 4
   \<and> set (buildOrders (tables (the (run example_faulty_db example_operations))) 7)
       = {1..sql_count_stages 7 (tables (the (run example_faulty_db example_operations)))}
   \<and> distinct (buildOrders (tables (the (run example_faulty_db example_operations))) 7)"
proof -
  have ids: "distinct (map stage_id (pipeline_stage (tables example_faulty_db)))"
    by (simp add: example_defs example_faulty_db_def)
  have bo: "buildOrders (tables example_faulty_db) 7 = [1, 2, 3]"
    by (simp add: buildOrders_def example_defs example_faulty_db_def)
  have cnt: "sql_count_stages 7 (tables example_faulty_db) = 3"
    by (simp add: sql_count_stages_def example_defs example_faulty_db_def)
  have dist: "distinct (buildOrders (tables example_faulty_db) 7)" unfolding bo by simp
  have set: "set (buildOrders (tables example_faulty_db) 7)
      = {1..sql_count_stages 7 (tables example_faulty_db)}"
  proof -
    have "[1::int, 2, 3] = [1..3]" by (simp add: upto.simps)
    then have "set [1::int, 2, 3] = {1..3}" by (simp only: set_upto)
    then show ?thesis unfolding bo cnt .
  qed
  have failed: "fst (perform example_faulty_db (OpDelete example_test_stage 42)) = Some ErrStorage"
    by (simp add: store_defs example_defs example_faulty_db_def)
  have runs: "run example_faulty_db example_operations =
      Some \<lparr>tables = \<lparr>pipeline_stage =
        [\<lparr>stage_id = 1, pipeline_id = 7, stage_name = ''build'', build_order = 2, enabled = True\<rparr>,
         \<lparr>stage_id = 2, pipeline_id = 7, stage_name = ''test'', build_order = 3, enabled = True\<rparr>,
         \<lparr>stage_id = 3, pipeline_id = 7, stage_name = ''deploy'', build_order = 1, enabled = True\<rparr>,
         \<lparr>stage_id = 4, pipeline_id = 7, stage_name = ''publish'', build_order = 4, enabled = True\<rparr>],
      pipeline_stage_prerequisite =
        [\<lparr>pipeline_stage_id = 2, parameter = ''branch'', expected_value = ''master''\<rparr>,
         \<lparr>pipeline_stage_id = 2, parameter = ''env'', expected_value = ''prod''\<rparr>],
      pipeline = [\<lparr>pipeline_key = 7, last_modified = 200\<rparr>],
      pipeline_action = [\<lparr>pipeline_action_key = 1, action_pipeline_stage_id = 2\<rparr>]\<rparr>,
      faults = [], clock = 200\<rparr>"
    by (simp add: example_operations_def stored_def store_defs example_defs example_faulty_db_def)
  then have some: "run example_faulty_db example_operations
      = Some (the (run example_faulty_db example_operations))" by simp
  note inv = build_order_invariant [OF ids dist set some]
  have fin: "buildOrders (tables (the (run example_faulty_db example_operations))) 7 = [2, 3, 1, 4]"
    "sql_count_stages 7 (tables (the (run example_faulty_db example_operations))) = 4"
    unfolding runs by (simp_all add: buildOrders_def sql_count_stages_def)
  from runs have ne: "run example_faulty_db example_operations \<noteq> None"
    by (simp only: option.distinct not_False_eq_True)
  from inv have i1: "distinct (buildOrders (tables (the (run example_faulty_db example_operations))) 7)"
    and i2: "set (buildOrders (tables (the (run example_faulty_db example_operations))) 7)
       = {1..sql_count_stages 7 (tables (the (run example_faulty_db example_operations)))}"
    by (rule conjunct1, rule conjunct2 [THEN conjunct1])
  from ids bo failed ne fin i2 i1 show ?thesis by (intro conjI)
qed

text \<open>
  Claim C1 as stated fails: the store checks neither the build order of an inserted stage
  nor the target of a move. On the example pipeline (build orders 1, 2, 3) an insert at
  build order 9 succeeds and leaves 1, 2, 3, 9; a move of the first stage to position 9
  succeeds and leaves 9, 1, 2; deleting the third stage through an in-memory copy that
  still says build order 1 succeeds and leaves 1, 1.
\<close>

theorem build_order_invariant_needs_valid_calls:
  "fst (InsertStage example_db (example_stage 0 ''late'' 9 [])) = None
   \<and> buildOrders (tables (snd (snd (InsertStage example_db (example_stage 0 ''late'' 9 []))))) 7
       = [1, 2, 3, 9]
   \<and> fst (MoveStage example_db (example_stage 1 ''build'' 1 []) 9) = None
   \<and> buildOrders (tables (snd (snd (MoveStage example_db (example_stage 1 ''build'' 1 []) 9)))) 7
       = [9, 1, 2]
   \<and> fst (DeleteStageByID example_db (example_stage 3 ''deploy'' 1 []) 42) = None
   \<and> buildOrders (tables (snd (DeleteStageByID example_db (example_stage 3 ''deploy'' 1 []) 42))) 7
       = [1, 1]
   \<and> buildOrders (tables example_db) 7 = [1, 2, 3]"
  by (simp add: buildOrders_def store_defs example_defs)

end
